theory Spec2Isabelle
  imports Complex_Main
begin

section \<open>Conventions of the embedding\<close>

text \<open>
  The repository is Python on top of numpy, scipy and torch. The embedding follows these
  conventions throughout.
  \<^item> Python integers are \<open>int\<close>; floating-point numbers (float32 tensors, float64
    numpy arrays) are idealised as \<open>real\<close>, so every statement about a numeric value is a
    statement in exact arithmetic.
  \<^item> A tensor is a nested list, outermost axis first: a \<open>(B, n)\<close> tensor is a list of
    \<open>B\<close> rows of length \<open>n\<close>.
  \<^item> A raised exception is the left summand of \<open>error + 'a\<close>. A torch result that is
    \<open>inf\<close> or \<open>nan\<close> is no real number; it is reported as \<open>Inl NonFinite\<close> although
    torch raises nothing there.
\<close>

datatype error =
    NameError
  | ValueError
  | RuntimeError
  | AttributeError
  | ZeroDivisionError
  | IndexError
  | ConfigError
  | NonFinite

definition bind_res :: "error + 'a \<Rightarrow> ('a \<Rightarrow> error + 'b) \<Rightarrow> error + 'b" where
  "bind_res m f = (case m of Inl e \<Rightarrow> Inl e | Inr x \<Rightarrow> f x)"

fun traverse :: "('a \<Rightarrow> error + 'b) \<Rightarrow> 'a list \<Rightarrow> error + 'b list" where
  "traverse f [] = Inr []"
| "traverse f (x # xs) =
     bind_res (f x) (\<lambda>y. bind_res (traverse f xs) (\<lambda>ys. Inr (y # ys)))"

section \<open>The multi-filter compositor: construction\<close>

text \<open>
  \<^verbatim>\<open>APC_SNR_multi_filter.__init__\<close> (models/APC\_SNR/apc\_snr.py). The classes
  \<^verbatim>\<open>ConvSTFT\<close>, \<^verbatim>\<open>ConviSTFT\<close>, \<^verbatim>\<open>AcousticScaler\<close> and \<^verbatim>\<open>SingleSrcPMSQE\<close> are
  imported from modules that are not part of the sources at hand. An instance of each is
  represented by the arguments it is constructed with, and whether a constructor raises
  for given arguments is a parameter of the model.
\<close>

record conv_stft =
  win_len :: int
  win_inc :: int
  fft_len :: int
  win_type :: string
  feature_type :: string

record acoustic_scaler =
  theta :: real
  mag_bins :: int
  no_grad :: bool

record multi_filter =
  multi_hop :: "int list"
  scaler :: acoustic_scaler
  mf_eps :: real
  pmsqe_sample_rate :: int
  model_stft :: conv_stft
  model_istft :: conv_stft
  stfts :: "conv_stft list"

text \<open>
  Modelled from the spec: the engine class \<^verbatim>\<open>ConvSTFT(win_len, win_inc, fft_len,
  win_type, feature_type)\<close> is missing from the sources; an engine is its resolution
  configuration (frame length, hop length, transform size, window family). \<open>ConvSTFT\<close>
  only collects the arguments; whether the constructor accepts them is decided by
  \<open>construct\<close> below.
\<close>

definition ConvSTFT :: "int \<Rightarrow> int \<Rightarrow> int \<Rightarrow> string \<Rightarrow> string \<Rightarrow> conv_stft" where
  "ConvSTFT wl hop fl wt ft =
     \<lparr>win_len = wl, win_inc = hop, fft_len = fl, win_type = wt, feature_type = ft\<rparr>"

text \<open>
  The constructors of the four missing classes: each either raises the given error or
  yields the instance of its arguments.
\<close>

record absent_classes =
  AcousticScaler_raises :: "acoustic_scaler \<Rightarrow> error option"
  SingleSrcPMSQE_raises :: "int \<Rightarrow> error option"
  ConvSTFT_raises :: "conv_stft \<Rightarrow> error option"
  ConviSTFT_raises :: "conv_stft \<Rightarrow> error option"

definition construct :: "('a \<Rightarrow> error option) \<Rightarrow> 'a \<Rightarrow> error + 'a" where
  "construct raises args = (case raises args of Some e \<Rightarrow> Inl e | None \<Rightarrow> Inr args)"

text \<open>
  Modelled from the spec: the constructors of the missing classes as the specification
  describes them. Engine construction fails with \<^verbatim>\<open>ConfigError\<close> for a frame length, hop
  length or transform size that is not positive and for a transform size below the frame
  length; nothing is said to make the scaler or the scorer fail.
\<close>

definition engine_config_error :: "conv_stft \<Rightarrow> error option" where
  "engine_config_error cfg =
     (if win_len cfg \<le> 0 \<or> win_inc cfg \<le> 0 \<or> fft_len cfg \<le> 0 \<or> fft_len cfg < win_len cfg
      then Some ConfigError else None)"

definition spec_classes :: absent_classes where
  "spec_classes =
     \<lparr>AcousticScaler_raises = (\<lambda>args. None),
      SingleSrcPMSQE_raises = (\<lambda>rate. None),
      ConvSTFT_raises = engine_config_error,
      ConviSTFT_raises = engine_config_error\<rparr>"

text \<open>
  The argument \<^verbatim>\<open>hops\<close> defaults to the empty tuple and is documented with a list. A
  tuple has no method \<^verbatim>\<open>remove\<close>.
\<close>

datatype hops_arg = HopsTuple "int list" | HopsList "int list"

text \<open>Python's \<^verbatim>\<open>list.remove(x)\<close>: drops the first element equal to \<open>x\<close>.\<close>

fun list_remove :: "'a \<Rightarrow> 'a list \<Rightarrow> error + 'a list" where
  "list_remove x [] = Inl ValueError"
| "list_remove x (y # ys) =
     (if y = x then Inr ys else bind_res (list_remove x ys) (\<lambda>zs. Inr (y # zs)))"

text \<open>
  The constructor, statement by statement: the scaler, the scorer, the model engine and its
  inverse, the removal of the model hop, and one engine for each remaining hop.
\<close>

definition APC_SNR_multi_filter_init ::
    "absent_classes \<Rightarrow> int \<Rightarrow> int \<Rightarrow> real \<Rightarrow> int \<Rightarrow> hops_arg \<Rightarrow> error + multi_filter" where
  "APC_SNR_multi_filter_init cls model_hop model_winlen theta' mag_bins' hops =
     bind_res (construct (AcousticScaler_raises cls)
                 \<lparr>theta = theta', mag_bins = mag_bins' + 1, no_grad = True\<rparr>) (\<lambda>scaler'.
     bind_res (construct (SingleSrcPMSQE_raises cls) 16000) (\<lambda>rate.
     bind_res (construct (ConvSTFT_raises cls)
                 (ConvSTFT model_winlen model_hop (mag_bins' * 2) ''hanning sqrt'' ''complex''))
              (\<lambda>model_stft'.
     bind_res (construct (ConviSTFT_raises cls)
                 (ConvSTFT model_winlen model_hop (mag_bins' * 2) ''hanning sqrt'' ''complex''))
              (\<lambda>model_istft'.
     bind_res
       (case hops of
          HopsTuple hs \<Rightarrow> if model_hop \<in> set hs then Inl AttributeError else Inr hs
        | HopsList hs \<Rightarrow> if model_hop \<in> set hs then list_remove model_hop hs else Inr hs)
       (\<lambda>mh.
     bind_res
       (traverse (\<lambda>hop. construct (ConvSTFT_raises cls)
                           (ConvSTFT model_winlen hop (mag_bins' * 2) ''hanning sqrt'' ''complex''))
          mh)
       (\<lambda>stfts'.
     Inr \<lparr>multi_hop = mh,
          scaler = scaler',
          mf_eps = 1 / 10 ^ 8,
          pmsqe_sample_rate = rate,
          model_stft = model_stft',
          model_istft = model_istft',
          stfts = stfts'\<rparr>))))))"

text \<open>The hop sizes of the auxiliary engines, and of the whole resolution set.\<close>

definition aux_hops :: "multi_filter \<Rightarrow> int list" where
  "aux_hops st = map win_inc (stfts st)"

definition resolution_hops :: "multi_filter \<Rightarrow> int list" where
  "resolution_hops st = map win_inc (model_stft st # stfts st)"

section \<open>Tensor arithmetic\<close>

text \<open>
  Elementwise torch operations on two tensors broadcast: along every axis the two sizes
  are equal, or one of them is 1 and that operand is repeated; any other pair of sizes
  raises \<^verbatim>\<open>RuntimeError\<close>. \<open>bzip\<close> is one axis of that rule; a two-axis operation
  nests it.
\<close>

definition bzip :: "('a \<Rightarrow> 'b \<Rightarrow> error + 'c) \<Rightarrow> 'a list \<Rightarrow> 'b list \<Rightarrow> error + 'c list" where
  "bzip f xs ys =
     (if length xs = length ys then traverse (\<lambda>(x, y). f x y) (zip xs ys)
      else if length xs = 1 then traverse (\<lambda>y. f (hd xs) y) ys
      else if length ys = 1 then traverse (\<lambda>x. f x (hd ys)) xs
      else Inl RuntimeError)"

text \<open>
  Division of floats raises nothing: a zero divisor gives \<open>inf\<close> or \<open>nan\<close>, and the
  logarithm of a non-positive number gives \<open>-inf\<close> or \<open>nan\<close>.
\<close>

definition t_mul :: "real list list \<Rightarrow> real list list \<Rightarrow> error + real list list" where
  "t_mul = bzip (bzip (\<lambda>x y. Inr (x * y)))"

definition t_sub :: "real list list \<Rightarrow> real list list \<Rightarrow> error + real list list" where
  "t_sub = bzip (bzip (\<lambda>x y. Inr (x - y)))"

definition t_div :: "real list list \<Rightarrow> real list list \<Rightarrow> error + real list list" where
  "t_div = bzip (bzip (\<lambda>x y. if y = 0 then Inl NonFinite else Inr (x / y)))"

definition add_scalar :: "real list list \<Rightarrow> real \<Rightarrow> real list list" where
  "add_scalar t c = map (map (\<lambda>v. v + c)) t"

definition scalar_mul :: "real \<Rightarrow> real list list \<Rightarrow> real list list" where
  "scalar_mul c t = map (map (\<lambda>v. c * v)) t"

definition sum_keepdim :: "real list list \<Rightarrow> real list list" where
  "sum_keepdim t = map (\<lambda>row. [sum_list row]) t"

definition t_log10 :: "real list list \<Rightarrow> error + real list list" where
  "t_log10 = traverse (traverse (\<lambda>v. if v \<le> 0 then Inl NonFinite else Inr (log 10 v)))"

definition t_mean :: "real list list \<Rightarrow> error + real" where
  "t_mean t = (if concat t = [] then Inl NonFinite
               else Inr (sum_list (concat t) / real (length (concat t))))"

text \<open>
  \<^verbatim>\<open>x.reshape(x.size(0), -1)\<close> only changes the layout: the tensor is given as the list
  of its flattened batch items. torch refuses the reshape for a batch without items, where
  the size of the second axis is ambiguous.
\<close>

definition reshape_rows :: "real list list \<Rightarrow> error + real list list" where
  "reshape_rows t = (if t = [] then Inl RuntimeError else Inr t)"

section \<open>The signal-to-noise loss\<close>

text \<open>\<^verbatim>\<open>stft_snr(est, clean, eps=1e-8)\<close> (models/APC\_SNR/apc\_snr.py), line by line.\<close>

definition stft_snr :: "real list list \<Rightarrow> real list list \<Rightarrow> real \<Rightarrow> error + real" where
  "stft_snr est clean eps =
     bind_res (reshape_rows est) (\<lambda>s1.
     bind_res (reshape_rows clean) (\<lambda>s2.
     bind_res (t_mul s1 s2) (\<lambda>s1s2.
     bind_res (t_mul s2 s2) (\<lambda>s2s2.
     bind_res (t_div (sum_keepdim s1s2) (add_scalar (sum_keepdim s2s2) eps)) (\<lambda>q.
     bind_res (t_mul q s2) (\<lambda>s_target.
     bind_res (t_sub s1 s_target) (\<lambda>e_nosie.
     bind_res (t_mul s_target s_target) (\<lambda>tt.
     bind_res (t_mul e_nosie e_nosie) (\<lambda>ee.
     bind_res (t_div (sum_keepdim tt) (add_scalar (sum_keepdim ee) eps)) (\<lambda>r.
     bind_res (t_log10 (add_scalar r eps)) (\<lambda>l.
     bind_res (t_mean (scalar_mul 10 l)) (\<lambda>m. Inr (- m)))))))))))))"


text \<open>
  The formula of the specification, item by item of the batch: the target is the projection
  of the estimate onto the clean signal, the error is the rest, and the loss is the negated
  mean of the logarithmic ratio of their energies.
\<close>

definition dot :: "real list \<Rightarrow> real list \<Rightarrow> real" where
  "dot a b = sum_list (map2 (*) a b)"

definition spec_target :: "real \<Rightarrow> real list \<Rightarrow> real list \<Rightarrow> real list" where
  "spec_target eps est clean = map (\<lambda>c. dot est clean / (dot clean clean + eps) * c) clean"

definition spec_error :: "real \<Rightarrow> real list \<Rightarrow> real list \<Rightarrow> real list" where
  "spec_error eps est clean = map2 (-) est (spec_target eps est clean)"

definition spec_snr :: "real \<Rightarrow> real list \<Rightarrow> real list \<Rightarrow> real" where
  "spec_snr eps est clean =
     10 * log 10 (dot (spec_target eps est clean) (spec_target eps est clean)
                  / (dot (spec_error eps est clean) (spec_error eps est clean) + eps) + eps)"

definition spec_snr_loss :: "real list list \<Rightarrow> real list list \<Rightarrow> real" where
  "spec_snr_loss est clean =
     - (sum_list (map2 (spec_snr (1 / 10 ^ 8)) est clean) / real (length est))"

definition target_norm :: "real \<Rightarrow> real list \<Rightarrow> real list \<Rightarrow> real" where
  "target_norm eps est clean = dot (spec_target eps est clean) (spec_target eps est clean)"

definition noise_norm :: "real \<Rightarrow> real list \<Rightarrow> real list \<Rightarrow> real" where
  "noise_norm eps est clean = dot (spec_error eps est clean) (spec_error eps est clean)"

section \<open>The multi-filter compositor: scoring\<close>

text \<open>
  \<^verbatim>\<open>APC_SNR_multi_filter.forward\<close>. Its collaborators are not part of the sources: the
  forward pass of an engine (waveforms \<open>(B, T)\<close> to spectra \<open>(B, 2F, T)\<close>), the acoustic
  scaler and the perceptual scorer. They are parameters of the model, and each may raise.
\<close>

record externals =
  stft_forward :: "conv_stft \<Rightarrow> real list list \<Rightarrow> error + real list list list"
  scaler_forward :: "acoustic_scaler \<Rightarrow> real list list list \<Rightarrow> real list list list
                       \<Rightarrow> error + (real list list list \<times> real list list list)"
  pmsqe_forward :: "int \<Rightarrow> real list list list \<Rightarrow> real list list list
                      \<Rightarrow> real list list list option \<Rightarrow> error + real list"

text \<open>
  \<^verbatim>\<open>power(x)\<close>: \<^verbatim>\<open>torch.chunk(x, 2, dim=-2)\<close> cuts the channel axis after
  \<open>\<lceil>C / 2\<rceil>\<close> channels (one chunk only when nothing is left for the second);
  \<^verbatim>\<open>torch.stack\<close> needs chunks of one size; squares are summed over the stacked axis.
\<close>

definition power_item :: "real list list \<Rightarrow> error + real list list" where
  "power_item x =
     (let h = (length x + 1) div 2; re = take h x; im = drop h x in
      if im = [] then Inr (map (map (\<lambda>v. v\<^sup>2)) re)
      else if length re \<noteq> length im then Inl RuntimeError
      else Inr (map2 (map2 (\<lambda>a b. a\<^sup>2 + b\<^sup>2)) re im))"

definition power :: "real list list list \<Rightarrow> error + real list list list" where
  "power x = traverse power_item x"

text \<open>\<^verbatim>\<open>.mean()\<close> over all entries; the mean of no entries is \<open>nan\<close>.\<close>

definition mean_all :: "real list \<Rightarrow> error + real" where
  "mean_all vs = (if vs = [] then Inl NonFinite else Inr (sum_list vs / real (length vs)))"

definition t_mul3 :: "real list list list \<Rightarrow> real list list list \<Rightarrow> error + real list list list" where
  "t_mul3 = bzip (bzip (bzip (\<lambda>x y. Inr (x * y))))"

definition pmsqe_score ::
    "externals \<Rightarrow> multi_filter \<Rightarrow> real list list list \<Rightarrow> real list list list \<Rightarrow> error + real" where
  "pmsqe_score ext st est_stft clean_stft =
     bind_res (power est_stft) (\<lambda>mag_est.
     bind_res (power clean_stft) (\<lambda>mag_clean.
     bind_res (pmsqe_forward ext (pmsqe_sample_rate st) mag_est mag_clean None) mean_all))"

text \<open>The scaler, the two elementwise products and \<^verbatim>\<open>stft_snr\<close>, in the order of the source.\<close>

definition scaled_snr ::
    "externals \<Rightarrow> multi_filter \<Rightarrow> real list list list \<Rightarrow> real list list list \<Rightarrow> error + real" where
  "scaled_snr ext st est_stft clean_stft =
     bind_res (scaler_forward ext (scaler st) est_stft clean_stft) (\<lambda>(est_scales, clean_scales).
     bind_res (t_mul3 est_stft est_scales) (\<lambda>est'.
     bind_res (t_mul3 clean_stft clean_scales) (\<lambda>clean'.
     stft_snr (map concat est') (map concat clean') (1 / 10 ^ 8))))"

text \<open>The loop over the auxiliary engines, with the two running sums.\<close>

fun filter_loop ::
    "externals \<Rightarrow> multi_filter \<Rightarrow> real list list \<Rightarrow> real list list \<Rightarrow> conv_stft list
       \<Rightarrow> real \<times> real \<Rightarrow> error + (real \<times> real)" where
  "filter_loop ext st est_time_domain clean [] acc = Inr acc"
| "filter_loop ext st est_time_domain clean (filter' # rest) (stft_scaled_snr, pmsqe_acc) =
     bind_res (stft_forward ext filter' clean) (\<lambda>clean_stft.
     bind_res (stft_forward ext filter' est_time_domain) (\<lambda>est_stft.
     bind_res (pmsqe_score ext st est_stft clean_stft) (\<lambda>p.
     bind_res (scaled_snr ext st est_stft clean_stft) (\<lambda>s.
     filter_loop ext st est_time_domain clean rest (stft_scaled_snr + s, pmsqe_acc + p)))))"

definition forward ::
    "externals \<Rightarrow> multi_filter \<Rightarrow> real list list \<Rightarrow> real list list \<Rightarrow> error + (real \<times> real)" where
  "forward ext st est_time_domain clean =
     bind_res (stft_forward ext (model_stft st) est_time_domain) (\<lambda>est.
     bind_res (stft_forward ext (model_stft st) clean) (\<lambda>clean_stft.
     bind_res (pmsqe_score ext st est clean_stft) (\<lambda>p.
     bind_res (scaled_snr ext st est clean_stft) (\<lambda>s.
     bind_res (filter_loop ext st est_time_domain clean (stfts st) (s, p)) (\<lambda>(stft_scaled_snr, pmsqe_acc).
     Inr (stft_scaled_snr / real (length (stfts st) + 1),
          pmsqe_acc / real (length (stfts st) + 1)))))))"

text \<open>
  Steps 1 to 3 of the specification for one engine: analyse both signals, score the power
  spectra, scale and take the signal-to-noise loss. The pair is (snr loss, perceptual score).
\<close>

definition resolution_score ::
    "externals \<Rightarrow> multi_filter \<Rightarrow> real list list \<Rightarrow> real list list \<Rightarrow> conv_stft
       \<Rightarrow> error + (real \<times> real)" where
  "resolution_score ext st est_time_domain clean engine =
     bind_res (stft_forward ext engine est_time_domain) (\<lambda>est.
     bind_res (stft_forward ext engine clean) (\<lambda>clean_stft.
     bind_res (pmsqe_score ext st est clean_stft) (\<lambda>p.
     bind_res (scaled_snr ext st est clean_stft) (\<lambda>s. Inr (s, p)))))"

text \<open>Stand-ins for the collaborators and a compositor without auxiliary engines.\<close>

definition toy_externals :: externals where
  "toy_externals =
     \<lparr>stft_forward = (\<lambda>engine w. Inr (map (\<lambda>row. [row, row]) w)),
      scaler_forward = (\<lambda>sc est clean. Inr (est, clean)),
      pmsqe_forward = (\<lambda>rate mag_est mag_clean vmask. Inr [1])\<rparr>"

definition toy_filter :: multi_filter where
  "toy_filter =
     \<lparr>multi_hop = [],
      scaler = \<lparr>theta = 1 / 100, mag_bins = 257, no_grad = True\<rparr>,
      mf_eps = 1 / 10 ^ 8,
      pmsqe_sample_rate = 16000,
      model_stft = ConvSTFT 512 128 512 ''hanning sqrt'' ''complex'',
      model_istft = ConvSTFT 512 128 512 ''hanning sqrt'' ''complex'',
      stfts = []\<rparr>"

section \<open>The voice-activity variant\<close>

text \<open>\<^verbatim>\<open>APC_SNR.__init__\<close> and \<^verbatim>\<open>APC_SNR.forward\<close>. Device placement is left out.\<close>

record apc_snr =
  winlen :: int
  hop :: int
  as_scaler :: acoustic_scaler
  as_eps :: real
  as_pmsqe_sample_rate :: int
  as_model_stft :: conv_stft

definition APC_SNR_init :: "int \<Rightarrow> int \<Rightarrow> real \<Rightarrow> int \<Rightarrow> apc_snr" where
  "APC_SNR_init model_hop model_winlen theta' mag_bins' =
     \<lparr>winlen = model_winlen,
      hop = model_hop,
      as_scaler = \<lparr>theta = theta', mag_bins = mag_bins' + 1, no_grad = True\<rparr>,
      as_eps = 1 / 10 ^ 8,
      as_pmsqe_sample_rate = 16000,
      as_model_stft = ConvSTFT model_winlen model_hop (mag_bins' * 2) ''hanning sqrt'' ''complex''\<rparr>"

text \<open>Python's \<^verbatim>\<open>xs[a:b]\<close>: negative bounds count from the end, every bound is clipped.\<close>

definition py_slice :: "'a list \<Rightarrow> int \<Rightarrow> int \<Rightarrow> 'a list" where
  "py_slice xs a b =
     (let n = int (length xs);
          a' = (if a < 0 then max 0 (a + n) else min a n);
          b' = (if b < 0 then max 0 (b + n) else min b n)
      in drop (nat a') (take (nat b') xs))"

text \<open>
  \<^verbatim>\<open>frames[:, index, :] = mix_vad[:, index * hop : index * hop + winlen]\<close> for one item of
  the batch: the slice has \<open>winlen\<close> samples, or one sample that is repeated, or the
  assignment raises.
\<close>

definition vad_frame :: "apc_snr \<Rightarrow> real list \<Rightarrow> int \<Rightarrow> error + real list" where
  "vad_frame st row index =
     (let s = py_slice row (index * hop st) (index * hop st + winlen st) in
      if int (length s) = winlen st then Inr s
      else if length s = 1 then Inr (replicate (nat (winlen st)) (hd s))
      else Inl RuntimeError)"

text \<open>
  The lines from \<^verbatim>\<open>frame_num\<close> to \<^verbatim>\<open>vad_mask[:, :vad_label.shape[1], :] = vad_label\<close>;
  \<open>T\<close> is \<^verbatim>\<open>est.shape[2]\<close>. A batch without items is taken to have rows of length 0.
\<close>

definition vad_mask :: "apc_snr \<Rightarrow> real list list \<Rightarrow> nat \<Rightarrow> error + real list list list" where
  "vad_mask st mix_vad T =
     (if hop st = 0 then Inl ZeroDivisionError
      else
        let L = (if mix_vad = [] then 0 else int (length (hd mix_vad)));
            frame_num = 1 + (L - winlen st) div hop st
        in
          if frame_num < 0 \<or> winlen st < 0 then Inl RuntimeError
          else
            bind_res
              (traverse (\<lambda>row. traverse (vad_frame st row) (map int [0..<nat frame_num])) mix_vad)
              (\<lambda>frames.
                 let vad_frames = map (map (\<lambda>f. [sum_list f])) frames;
                     vad_label = map (map (map (\<lambda>v. if 0 < v then 1 else 1 / 10))) vad_frames
                 in
                   if nat frame_num \<le> T
                   then Inr (map (\<lambda>lab. lab @ replicate (T - nat frame_num) [0]) vad_label)
                   else if frame_num = 1 then Inr (map (\<lambda>lab. []) vad_label)
                   else Inl RuntimeError))"

definition spectrum_frames :: "real list list list \<Rightarrow> nat" where
  "spectrum_frames est = (if est = [] \<or> hd est = [] then 0 else length (hd (hd est)))"

definition pmsqe_score_vad ::
    "externals \<Rightarrow> apc_snr \<Rightarrow> real list list list \<Rightarrow> real list list list \<Rightarrow> real list list list
       \<Rightarrow> error + real" where
  "pmsqe_score_vad ext st est_stft clean_stft vmask =
     bind_res (power est_stft) (\<lambda>mag_est.
     bind_res (power clean_stft) (\<lambda>mag_clean.
     bind_res (pmsqe_forward ext (as_pmsqe_sample_rate st) mag_est mag_clean (Some vmask)) mean_all))"

definition APC_SNR_forward ::
    "externals \<Rightarrow> apc_snr \<Rightarrow> real list list \<Rightarrow> real list list \<Rightarrow> real list list
       \<Rightarrow> error + (real \<times> real)" where
  "APC_SNR_forward ext st est_time_domain clean mix_vad =
     bind_res (stft_forward ext (as_model_stft st) clean) (\<lambda>clean_stft.
     bind_res (stft_forward ext (as_model_stft st) est_time_domain) (\<lambda>est.
     bind_res (vad_mask st mix_vad (spectrum_frames est)) (\<lambda>vmask.
     bind_res (pmsqe_score_vad ext st est clean_stft vmask) (\<lambda>p.
     bind_res (scaler_forward ext (as_scaler st) est clean_stft) (\<lambda>(est_scales, clean_scales).
     bind_res (t_mul3 est est_scales) (\<lambda>est'.
     bind_res (t_mul3 clean_stft clean_scales) (\<lambda>clean'.
     bind_res (stft_snr (map concat est') (map concat clean') (1 / 10 ^ 8)) (\<lambda>s.
     Inr (s, p)))))))))"

section \<open>The analysis/synthesis engine\<close>

text \<open>
  Class \<^verbatim>\<open>STFT\<close> of models/conv\_stft.py. The window argument is a name or an array.
\<close>

datatype win_arg = WinName string | WinArray "real list"

text \<open>
  The functions of scipy and numpy whose values the class takes as they come:
  \<^verbatim>\<open>scipy.signal.get_window(name, Nx, fftbins=True)\<close> and \<^verbatim>\<open>numpy.linalg.pinv\<close>.
\<close>

record numlib =
  get_window :: "string \<Rightarrow> int \<Rightarrow> error + real list"
  pinv :: "real list list \<Rightarrow> error + real list list"

text \<open>The attributes and buffers of an instance.\<close>

record stft =
  nframe :: int
  nhop :: int
  pad :: int
  nfft :: int
  weight :: "real list list"
  inv_weight :: "real list list"
  window :: "real list"
  enframe :: "real list list"

text \<open>
  \<^verbatim>\<open>int(2 ** np.ceil(np.log2(nframe)))\<close>, in exact arithmetic. numpy gives \<open>-inf\<close> for
  the logarithm of 0, which ends as 0, and \<open>nan\<close> for a negative number, which \<^verbatim>\<open>int\<close>
  refuses.
\<close>

definition default_nfft :: "int \<Rightarrow> error + int" where
  "default_nfft nframe' =
     (if nframe' < 0 then Inl ValueError
      else if nframe' = 0 then Inr 0
      else Inr (2 ^ nat \<lceil>log 2 (real_of_int nframe')\<rceil>))"

text \<open>
  \<^verbatim>\<open>np.fft.rfft(np.eye(N))[:nframe]\<close>, real and imaginary parts side by side, transposed:
  row \<open>c\<close> of the result is bin \<open>c\<close> of the real part for \<open>c < N div 2 + 1\<close>, and bin
  \<open>c - (N div 2 + 1)\<close> of the imaginary part after that; column \<open>n\<close> is the sample.
\<close>

definition fourier_kernel :: "int \<Rightarrow> int \<Rightarrow> error + real list list" where
  "fourier_kernel N nframe' =
     (if N \<le> 0 then Inl ValueError
      else
        let F = nat N div 2 + 1;
            rows = py_slice [0..<nat N] 0 nframe'
        in Inr (map (\<lambda>c. map (\<lambda>n. if c < F then cos (2 * pi * real n * real c / real_of_int N)
                                    else - sin (2 * pi * real n * real (c - F) / real_of_int N)) rows)
                 [0..<2 * F]))"

text \<open>A row of the kernel times the window, with numpy's broadcasting.\<close>

definition np_mul_row :: "real list \<Rightarrow> real list \<Rightarrow> error + real list" where
  "np_mul_row xs ys =
     (if length xs = length ys then Inr (map2 (*) xs ys)
      else if length xs = 1 then Inr (map (\<lambda>y. hd xs * y) ys)
      else if length ys = 1 then Inr (map (\<lambda>x. x * hd ys) xs)
      else Inl ValueError)"

text \<open>The transpose of a matrix with \<open>c\<close> columns.\<close>

definition np_T :: "nat \<Rightarrow> 'a list list \<Rightarrow> 'a list list" where
  "np_T c m = (if m = [] then replicate c [] else transpose m)"

text \<open>
  \<^verbatim>\<open>init_conv_stft_kernels\<close>. In the branch of the window name \<^verbatim>\<open>"hann sqrt"\<close> the
  source reads the name \<^verbatim>\<open>nframe\<close>, which is neither a local nor a global of the module.
\<close>

definition init_conv_stft_kernels ::
    "numlib \<Rightarrow> int \<Rightarrow> int \<Rightarrow> win_arg \<Rightarrow> bool \<Rightarrow> error + (real list list \<times> real list)" where
  "init_conv_stft_kernels lib nframe' N win inverse' =
     bind_res
       (case win of
          WinName s \<Rightarrow> if s = ''hann sqrt'' then Inl NameError else get_window lib s nframe'
        | WinArray w \<Rightarrow> Inr w)
       (\<lambda>window'.
     bind_res (fourier_kernel N nframe') (\<lambda>kernel.
     bind_res (if inverse'
               then bind_res (pinv lib kernel) (\<lambda>p. Inr (np_T (length kernel) p))
               else Inr kernel) (\<lambda>kernel'.
     bind_res (traverse (\<lambda>row. np_mul_row row window') kernel') (\<lambda>kw.
     Inr (kw, window')))))"

definition eye :: "nat \<Rightarrow> real list list" where
  "eye n = map (\<lambda>i. map (\<lambda>j. if i = j then 1 else 0) [0..<n]) [0..<n]"

text \<open>\<^verbatim>\<open>STFT.__init__\<close>; \<^verbatim>\<open>torch.eye\<close> refuses a negative size.\<close>

definition STFT_init ::
    "numlib \<Rightarrow> int \<Rightarrow> int \<Rightarrow> int option \<Rightarrow> win_arg \<Rightarrow> bool \<Rightarrow> error + stft" where
  "STFT_init lib nframe' nhop' nfft' win center =
     bind_res (case nfft' of None \<Rightarrow> default_nfft nframe' | Some n \<Rightarrow> Inr n) (\<lambda>N.
     bind_res (init_conv_stft_kernels lib nframe' N win False) (\<lambda>(kernel, window').
     bind_res (init_conv_stft_kernels lib nframe' N win True) (\<lambda>(inv_kernel, unused).
     if nframe' < 0 then Inl RuntimeError
     else Inr \<lparr>nframe = nframe', nhop = nhop',
               pad = (if center then nframe' div 2 else 0),
               nfft = N, weight = kernel, inv_weight = inv_kernel, window = window',
               enframe = eye (nat nframe')\<rparr>)))"

definition nLen :: "stft \<Rightarrow> int \<Rightarrow> error + int" where
  "nLen st l = (if nhop st = 0 then Inl ZeroDivisionError else Inr (l div nhop st * nhop st))"

text \<open>\<^verbatim>\<open>F.pad(x, (pad, pad))\<close>: zeros on both sides; a negative amount crops.\<close>

definition pad_row :: "int \<Rightarrow> real list \<Rightarrow> error + real list" where
  "pad_row p row =
     (if 0 \<le> p then Inr (replicate (nat p) 0 @ row @ replicate (nat p) 0)
      else if int (length row) + 2 * p < 0 then Inl RuntimeError
      else Inr (drop (nat (- p)) (take (length row - nat (- p)) row)))"

text \<open>
  \<^verbatim>\<open>F.conv1d(x, weight, stride)\<close> for one item of the batch and one input channel: the
  result has one row per output channel and one entry per frame. A stride below 1 and an
  input shorter than the kernel raise.
\<close>

definition kernel_size :: "real list list \<Rightarrow> nat" where
  "kernel_size w = (if w = [] then 0 else length (hd w))"

definition conv1d :: "real list list \<Rightarrow> int \<Rightarrow> real list \<Rightarrow> error + real list list" where
  "conv1d w stride xp =
     (let k = kernel_size w in
      if stride \<le> 0 \<or> k = 0 \<or> length xp < k then Inl RuntimeError
      else Inr (map (\<lambda>chan. map (\<lambda>f. \<Sum>j<k. chan ! j * xp ! (f * nat stride + j))
                              [0..<(length xp - k) div nat stride + 1]) w))"

text \<open>
  \<^verbatim>\<open>STFT.transform\<close> for one item; the result is \<open>[real, imaginary]\<close>, each a list of
  frames with one entry per frequency bin. A batch is a list of items.
\<close>

definition transform_item :: "stft \<Rightarrow> real list \<Rightarrow> error + real list list list" where
  "transform_item st row =
     bind_res (pad_row (pad st) row) (\<lambda>xp.
     bind_res (conv1d (weight st) (nhop st) xp) (\<lambda>out_complex.
     let dim = nfft st div 2 + 1;
         re = py_slice out_complex 0 dim;
         im = py_slice out_complex dim (int (length out_complex));
         frames = (length xp - kernel_size (weight st)) div nat (nhop st) + 1
     in if length re \<noteq> length im then Inl RuntimeError
        else Inr [map (\<lambda>t. map (\<lambda>chan. chan ! t) re) [0..<frames],
                  map (\<lambda>t. map (\<lambda>chan. chan ! t) im) [0..<frames]]))"

definition transform :: "stft \<Rightarrow> real list list \<Rightarrow> error + real list list list list" where
  "transform st x = traverse (transform_item st) x"

text \<open>
  \<^verbatim>\<open>F.conv_transpose1d(inputs, weight, stride)\<close> for one item and one output channel. The
  input is given frame by frame (one entry per input channel): frame \<open>t\<close> adds its
  channels times the kernel rows at the positions \<open>t \<cdot> stride, \<dots>\<close> (overlap-add).
\<close>

definition conv_transpose1d :: "real list list \<Rightarrow> int \<Rightarrow> real list list \<Rightarrow> error + real list" where
  "conv_transpose1d w stride inputs =
     (let k = kernel_size w in
      if stride \<le> 0 \<or> inputs = [] \<or> k = 0 \<or> (\<exists>v \<in> set inputs. length v \<noteq> length w)
      then Inl RuntimeError
      else Inr (map (\<lambda>p. \<Sum>t<length inputs.
                            if t * nat stride \<le> p \<and> p < t * nat stride + k
                            then \<Sum>c<length w. inputs ! t ! c * w ! c ! (p - t * nat stride)
                            else 0)
                     [0..<(length inputs - 1) * nat stride + k]))"

definition div_row :: "real list \<Rightarrow> real list \<Rightarrow> error + real list" where
  "div_row = bzip (\<lambda>x y. if y = 0 then Inl NonFinite else Inr (x / y))"

text \<open>\<^verbatim>\<open>STFT.inverse\<close> for one item, and \<^verbatim>\<open>STFT.forward\<close>.\<close>

definition inverse_item :: "stft \<Rightarrow> real list list list \<Rightarrow> error + real list" where
  "inverse_item st item =
     (if length item < 2 then Inl IndexError
      else
        let r = item ! 0; i = item ! 1 in
        if length r \<noteq> length i then Inl RuntimeError
        else
          bind_res (conv_transpose1d (inv_weight st) (nhop st) (map2 (@) r i)) (\<lambda>outputs.
          bind_res (conv_transpose1d (enframe st) (nhop st)
                      (replicate (length r) (map (\<lambda>v. v\<^sup>2) (window st)))) (\<lambda>coff.
          bind_res (div_row outputs (map (\<lambda>v. v + 1 / 10 ^ 8) coff)) (\<lambda>outputs'.
          Inr (if pad st \<noteq> 0 then py_slice outputs' (pad st) (- pad st) else outputs')))))"

definition inverse_stft :: "stft \<Rightarrow> real list list list list \<Rightarrow> error + real list list" where
  "inverse_stft st spec = traverse (inverse_item st) spec"

definition forward_stft :: "stft \<Rightarrow> real list list \<Rightarrow> error + real list list" where
  "forward_stft st x = bind_res (transform st x) (inverse_stft st)"

text \<open>
  A library for frames of two samples: scipy's periodic Hann window (all ones for a length
  of at most 1, refused for a negative length), and half the transpose, which is the
  pseudo-inverse of the Fourier kernel of size 2.
\<close>

definition hann :: "int \<Rightarrow> real list" where
  "hann n =
     (if n \<le> 1 then replicate (nat n) 1
      else map (\<lambda>k. 1 / 2 - cos (2 * pi * real k / real_of_int n) / 2) [0..<nat n])"

definition numlib_frame2 :: numlib where
  "numlib_frame2 =
     \<lparr>get_window = (\<lambda>name n. if name = ''hann'' \<and> 0 \<le> n then Inr (hann n) else Inl ValueError),
      pinv = (\<lambda>m. Inr (map (map (\<lambda>v. v / 2)) (transpose m)))\<rparr>"

text \<open>The engine that this library builds for frames of two samples and the hop \<open>h\<close>.\<close>

definition engine_frame2 :: "int \<Rightarrow> stft" where
  "engine_frame2 h =
     \<lparr>nframe = 2, nhop = h, pad = 1, nfft = 2,
      weight = [[0, 1], [0, - 1], [0, 0], [0, 0]],
      inv_weight = [[0, 1 / 2], [0, - 1 / 2], [0, 0], [0, 0]],
      window = [0, 1],
      enframe = [[1, 0], [0, 1]]\<rparr>"

section \<open>Notions for the round trip\<close>

text \<open>
  The normalisation curve of \<^verbatim>\<open>STFT.inverse\<close>: the squared window, overlap-added over
  the frames at the stride \<open>s\<close>, at the sample \<open>q\<close>.
\<close>

definition window_power :: "real list \<Rightarrow> nat \<Rightarrow> nat \<Rightarrow> nat \<Rightarrow> real" where
  "window_power w s frames q =
     (\<Sum>t<frames. if t * s \<le> q \<and> q < t * s + length w then (w ! (q - t * s))\<^sup>2 else 0)"

text \<open>
  What the round trip needs of the pseudo-inverse \<open>P\<close> of the kernel \<open>K\<close>: the shapes
  fit and \<open>P K\<close> is the identity. The Moore-Penrose inverse of a matrix of full column
  rank has this property.
\<close>

definition left_inverse :: "real list list \<Rightarrow> real list list \<Rightarrow> bool" where
  "left_inverse P K \<longleftrightarrow>
     K \<noteq> [] \<and> length P = length (hd K)
     \<and> (\<forall>row \<in> set K. length row = length (hd K))
     \<and> (\<forall>row \<in> set P. length row = length K)
     \<and> (\<forall>j < length P. \<forall>i < length P.
           (\<Sum>c<length K. P ! j ! c * K ! c ! i) = (if i = j then 1 else 0))"

text \<open>The last line of \<^verbatim>\<open>STFT.inverse\<close>: \<^verbatim>\<open>outputs[..., pad:-pad]\<close> unless \<^verbatim>\<open>pad\<close> is 0.\<close>

definition trim :: "stft \<Rightarrow> real list \<Rightarrow> real list" where
  "trim st l = (if pad st \<noteq> 0 then py_slice l (pad st) (- pad st) else l)"

text \<open>The matrix product, to state the Penrose equations.\<close>

definition mat_mul :: "real list list \<Rightarrow> real list list \<Rightarrow> real list list" where
  "mat_mul A B = map (\<lambda>row. map (dot row) (transpose B)) A"

section \<open>Properties of the compositor's construction\<close>

lemma list_remove_remove1:
  "x \<in> set xs \<Longrightarrow> list_remove x xs = Inr (remove1 x xs)"
  by (induction xs) (auto simp: bind_res_def)

lemma construct_Inr: "construct raises args = Inr inst \<Longrightarrow> inst = args"
  by (auto simp: construct_def split: option.splits)

lemma traverse_construct:
  "traverse (\<lambda>x. construct raises (f x)) xs = Inr ys \<Longrightarrow> ys = map f xs"
proof (induction xs arbitrary: ys)
  case Nil
  then show ?case by simp
next
  case (Cons x xs)
  then show ?case
    by (auto simp: bind_res_def split: sum.splits dest: construct_Inr)
qed

lemma init_list_hops:
  assumes "APC_SNR_multi_filter_init cls mh wl th mb (HopsList hs) = Inr st"
  shows "aux_hops st = remove1 mh hs" and "win_inc (model_stft st) = mh"
proof -
  obtain ms aux where m: "construct (ConvSTFT_raises cls)
                            (ConvSTFT wl mh (mb * 2) ''hanning sqrt'' ''complex'') = Inr ms"
    and a: "traverse (\<lambda>hop. construct (ConvSTFT_raises cls)
                               (ConvSTFT wl hop (mb * 2) ''hanning sqrt'' ''complex''))
              (if mh \<in> set hs then remove1 mh hs else hs) = Inr aux"
    and ms: "model_stft st = ms" and aux: "stfts st = aux"
    using assms
    by (cases "mh \<in> set hs")
       (auto simp: APC_SNR_multi_filter_init_def bind_res_def list_remove_remove1
             split: sum.splits)
  have "aux = map (\<lambda>hop. ConvSTFT wl hop (mb * 2) ''hanning sqrt'' ''complex'')
                (if mh \<in> set hs then remove1 mh hs else hs)"
    using a by (rule traverse_construct)
  then show "aux_hops st = remove1 mh hs"
    by (simp add: aux_hops_def aux ConvSTFT_def comp_def remove1_idem)
  have "ms = ConvSTFT wl mh (mb * 2) ''hanning sqrt'' ''complex''"
    using m by (rule construct_Inr)
  then show "win_inc (model_stft st) = mh"
    by (simp add: ms ConvSTFT_def)
qed

text \<open>The constructors of the specification refuse a hop that is not positive.\<close>

lemma init_refuses_hop_0:
  "APC_SNR_multi_filter_init spec_classes 128 512 (1 / 100) 256 (HopsList [0]) = Inl ConfigError"
  by (simp add: APC_SNR_multi_filter_init_def spec_classes_def construct_def
        engine_config_error_def ConvSTFT_def bind_res_def)

text \<open>
  C3, as stated, fails. With \<^verbatim>\<open>model_hop = 128\<close> and \<^verbatim>\<open>hops = [128, 8, 8, 128]\<close>
  construction succeeds and the auxiliary engines have the hop sizes 8, 8 and 128: only the
  first occurrence of the model hop is removed, and equal auxiliary hops are never merged.
\<close>

theorem multi_filter_hops_counterexample:
  "map_sum id aux_hops
     (APC_SNR_multi_filter_init spec_classes 128 512 (1 / 100) 256 (HopsList [128, 8, 8, 128]))
   = Inr [8, 8, 128]"
  by (simp add: APC_SNR_multi_filter_init_def spec_classes_def construct_def
        engine_config_error_def bind_res_def aux_hops_def ConvSTFT_def)

text \<open>
  C3, amended: whenever construction from a hops list without repeated entries succeeds,
  the auxiliary engines are those of the hops list without the model hop (in order), no
  auxiliary engine has the model's hop size, and no hop size occurs twice in the resolution
  set.
\<close>

theorem multi_filter_hops_distinct:
  assumes "APC_SNR_multi_filter_init cls mh wl th mb (HopsList hs) = Inr st"
    and "distinct hs"
  shows "aux_hops st = remove1 mh hs
         \<and> mh \<notin> set (aux_hops st)
         \<and> distinct (resolution_hops st)"
proof -
  have aux: "aux_hops st = remove1 mh hs" and model: "win_inc (model_stft st) = mh"
    using assms(1) by (rule init_list_hops)+
  have notin: "mh \<notin> set (aux_hops st)"
    using assms(2) by (simp add: aux)
  have "resolution_hops st = mh # aux_hops st"
    by (simp add: resolution_hops_def aux_hops_def model)
  then have "distinct (resolution_hops st)"
    using assms(2) notin by (simp add: aux)
  with aux notin show ?thesis by blast
qed

text \<open>Four different hops, the model hop among them: construction succeeds.\<close>

theorem multi_filter_hops_distinct_witness:
  "distinct [8, 16, 128, 32 :: int]
   \<and> (\<exists>st. APC_SNR_multi_filter_init spec_classes 128 512 (1 / 100) 256
              (HopsList [8, 16, 128, 32]) = Inr st
          \<and> aux_hops st = [8, 16, 32]
          \<and> 128 \<notin> set (aux_hops st)
          \<and> distinct (resolution_hops st))"
proof -
  obtain st where st: "APC_SNR_multi_filter_init spec_classes 128 512 (1 / 100) 256
                         (HopsList [8, 16, 128, 32]) = Inr st"
    by (simp add: APC_SNR_multi_filter_init_def spec_classes_def construct_def
          engine_config_error_def bind_res_def ConvSTFT_def)
  have d: "distinct [8, 16, 128, 32 :: int]" by simp
  show ?thesis
    using multi_filter_hops_distinct [OF st d] st by auto
qed

section \<open>Properties of the signal-to-noise loss\<close>

subsection \<open>Broadcasting on tensors of equal shape\<close>

lemma bind_res_Inr [simp]: "bind_res (Inr x) f = f x"
  by (simp add: bind_res_def)

lemma bind_res_Inl [simp]: "bind_res (Inl e) f = Inl e"
  by (simp add: bind_res_def)

lemma traverse_Inr:
  "(\<And>x. x \<in> set xs \<Longrightarrow> f x = Inr (g x)) \<Longrightarrow> traverse f xs = Inr (map g xs)"
  by (induction xs) simp_all

lemma map_zip_nth:
  "length xs = n \<Longrightarrow> length ys = n \<Longrightarrow>
   map h (zip xs ys) = map (\<lambda>i. h (xs ! i, ys ! i)) [0..<n]"
  by (auto simp: list_eq_iff_nth_eq)

lemma bzip_rows:
  assumes "length xs = n" "length ys = n"
    and "\<And>i. i < n \<Longrightarrow> f (xs ! i) (ys ! i) = Inr (g i)"
  shows "bzip f xs ys = Inr (map g [0..<n])"
proof -
  have "traverse (\<lambda>(x, y). f x y) (zip xs ys) = Inr (map (\<lambda>(x, y). projr (f x y)) (zip xs ys))"
    using assms by (intro traverse_Inr) (auto simp: in_set_zip)
  also have "map (\<lambda>(x, y). projr (f x y)) (zip xs ys) = map g [0..<n]"
    using assms by (auto simp: list_eq_iff_nth_eq)
  finally show ?thesis using assms by (simp add: bzip_def)
qed

lemma bzip_pure:
  "length xs = length ys \<Longrightarrow> bzip (\<lambda>x y. Inr (g x y)) xs ys = Inr (map2 g xs ys)"
  by (simp add: bzip_def traverse_Inr [where g = "\<lambda>(x, y). g x y"] split_def)

lemma bzip_left1:
  "bzip (\<lambda>x y. Inr (g x y)) [v] ys = Inr (map (g v) ys)"
proof (cases "length ys = 1")
  case True
  then obtain y where "ys = [y]" by (cases ys) auto
  then show ?thesis by (simp add: bzip_def)
next
  case False
  then show ?thesis by (simp add: bzip_def traverse_Inr [where g = "g v"])
qed

lemma bzip_div1:
  "b \<noteq> 0 \<Longrightarrow> bzip (\<lambda>x y. if y = 0 then Inl NonFinite else Inr (x / y)) [a] [b] = Inr [a / b]"
  by (simp add: bzip_def)

lemma dot_self_nonneg: "0 \<le> dot a a"
  unfolding dot_def by (induction a) simp_all

lemma t_mean_column:
  "0 < B \<Longrightarrow> t_mean (map (\<lambda>i. [g i]) [0..<B]) = Inr (sum_list (map g [0..<B]) / real B)"
proof -
  have "concat (map (\<lambda>i. [g i]) [0..<B]) = map g [0..<B]"
    by (induction B) simp_all
  then show "0 < B \<Longrightarrow> ?thesis" by (simp add: t_mean_def)
qed

lemma t_log10_column:
  "(\<And>i. i < B \<Longrightarrow> 0 < g i) \<Longrightarrow>
   t_log10 (map (\<lambda>i. [g i]) [0..<B]) = Inr (map (\<lambda>i. [log 10 (g i)]) [0..<B])"
proof -
  assume "\<And>i. i < B \<Longrightarrow> 0 < g i"
  then have pos: "\<not> g i \<le> 0" if "i < B" for i
    using that by (simp add: not_le)
  have "traverse (traverse (\<lambda>v. if v \<le> 0 then Inl NonFinite else Inr (log 10 v)))
          (map (\<lambda>i. [g i]) [0..<B])
        = Inr (map (map (log 10)) (map (\<lambda>i. [g i]) [0..<B]))"
    by (rule traverse_Inr) (auto simp: pos)
  then show ?thesis by (simp add: t_log10_def comp_def)
qed

lemma t_div_column:
  assumes "\<And>i. i < B \<Longrightarrow> b i \<noteq> 0"
  shows "t_div (map (\<lambda>i. [a i]) [0..<B]) (map (\<lambda>i. [b i]) [0..<B])
         = Inr (map (\<lambda>i. [a i / b i]) [0..<B])"
  unfolding t_div_def using assms by (intro bzip_rows) (simp_all add: bzip_div1)

lemma stft_snr_rows:
  assumes B: "length est = B" "length clean = B" "0 < B"
    and n1: "\<And>i. i < B \<Longrightarrow> length (est ! i) = n"
    and n2: "\<And>i. i < B \<Longrightarrow> length (clean ! i) = n"
    and n: "0 < n" and eps: "0 < eps"
  shows "stft_snr est clean eps
         = Inr (- (sum_list (map (\<lambda>i. spec_snr eps (est ! i) (clean ! i)) [0..<B]) / real B))"
proof -
  define tg where "tg i = spec_target eps (est ! i) (clean ! i)" for i
  define er where "er i = spec_error eps (est ! i) (clean ! i)" for i
  have ne: "est \<noteq> []" "clean \<noteq> []" using B by auto
  have "hd est = est ! 0" "hd clean = clean ! 0" using ne by (simp_all add: hd_conv_nth)
  then have hd: "hd est \<noteq> []" "hd clean \<noteq> []" using n1 [of 0] n2 [of 0] B n by auto
  have r1: "reshape_rows est = Inr est" and r2: "reshape_rows clean = Inr clean"
    using ne hd by (simp_all add: reshape_rows_def)
  have m12: "t_mul est clean = Inr (map (\<lambda>i. map2 (*) (est ! i) (clean ! i)) [0..<B])"
    unfolding t_mul_def using B n1 n2 by (intro bzip_rows) (simp_all add: bzip_pure)
  have m22: "t_mul clean clean = Inr (map (\<lambda>i. map2 (*) (clean ! i) (clean ! i)) [0..<B])"
    unfolding t_mul_def using B n2 by (intro bzip_rows) (simp_all add: bzip_pure)
  have pos: "dot c c + eps \<noteq> 0" for c
    using dot_self_nonneg [of c] eps by linarith
  have q: "t_div (sum_keepdim (map (\<lambda>i. map2 (*) (est ! i) (clean ! i)) [0..<B]))
                 (add_scalar (sum_keepdim (map (\<lambda>i. map2 (*) (clean ! i) (clean ! i)) [0..<B])) eps)
           = Inr (map (\<lambda>i. [dot (est ! i) (clean ! i) / (dot (clean ! i) (clean ! i) + eps)]) [0..<B])"
    using t_div_column [of B "\<lambda>i. dot (clean ! i) (clean ! i) + eps" "\<lambda>i. dot (est ! i) (clean ! i)"] pos
    by (simp add: sum_keepdim_def add_scalar_def dot_def comp_def)
  have st: "t_mul (map (\<lambda>i. [dot (est ! i) (clean ! i) / (dot (clean ! i) (clean ! i) + eps)]) [0..<B]) clean
            = Inr (map tg [0..<B])"
    unfolding t_mul_def using B by (intro bzip_rows) (simp_all add: bzip_left1 tg_def spec_target_def)
  have ltg: "length (tg i) = n" if "i < B" for i
    using that n2 by (simp add: tg_def spec_target_def)
  have en: "t_sub est (map tg [0..<B]) = Inr (map er [0..<B])"
    unfolding t_sub_def using B n1 ltg
    by (intro bzip_rows) (simp_all add: bzip_pure er_def spec_error_def tg_def)
  have ler: "length (er i) = n" if "i < B" for i
    using that n1 ltg by (simp add: er_def spec_error_def tg_def [symmetric])
  have tt: "t_mul (map tg [0..<B]) (map tg [0..<B]) = Inr (map (\<lambda>i. map2 (*) (tg i) (tg i)) [0..<B])"
    unfolding t_mul_def by (intro bzip_rows) (simp_all add: bzip_pure)
  have ee: "t_mul (map er [0..<B]) (map er [0..<B]) = Inr (map (\<lambda>i. map2 (*) (er i) (er i)) [0..<B])"
    unfolding t_mul_def by (intro bzip_rows) (simp_all add: bzip_pure)
  have r: "t_div (sum_keepdim (map (\<lambda>i. map2 (*) (tg i) (tg i)) [0..<B]))
                 (add_scalar (sum_keepdim (map (\<lambda>i. map2 (*) (er i) (er i)) [0..<B])) eps)
           = Inr (map (\<lambda>i. [dot (tg i) (tg i) / (dot (er i) (er i) + eps)]) [0..<B])"
    using t_div_column [of B "\<lambda>i. dot (er i) (er i) + eps" "\<lambda>i. dot (tg i) (tg i)"] pos
    by (simp add: sum_keepdim_def add_scalar_def dot_def comp_def)
  have arg: "0 < dot (tg i) (tg i) / (dot (er i) (er i) + eps) + eps" for i
  proof -
    have "0 \<le> dot (tg i) (tg i) / (dot (er i) (er i) + eps)"
      using dot_self_nonneg [of "tg i"] dot_self_nonneg [of "er i"] eps by simp
    then show ?thesis using eps by linarith
  qed
  have l: "t_log10 (add_scalar (map (\<lambda>i. [dot (tg i) (tg i) / (dot (er i) (er i) + eps)]) [0..<B]) eps)
           = Inr (map (\<lambda>i. [log 10 (dot (tg i) (tg i) / (dot (er i) (er i) + eps) + eps)]) [0..<B])"
    using t_log10_column [of B "\<lambda>i. dot (tg i) (tg i) / (dot (er i) (er i) + eps) + eps"] arg
    by (simp add: add_scalar_def comp_def)
  have m: "t_mean (scalar_mul 10 (map (\<lambda>i. [log 10 (dot (tg i) (tg i) / (dot (er i) (er i) + eps) + eps)]) [0..<B]))
           = Inr (sum_list (map (\<lambda>i. spec_snr eps (est ! i) (clean ! i)) [0..<B]) / real B)"
    using t_mean_column [of B "\<lambda>i. spec_snr eps (est ! i) (clean ! i)"] B
    by (simp add: scalar_mul_def comp_def spec_snr_def tg_def er_def)
  show ?thesis
    unfolding stft_snr_def by (simp add: r1 r2 m12 m22 q st en tt ee r l m)
qed

lemma spec_snr_norms:
  "spec_snr eps est clean
   = 10 * log 10 (target_norm eps est clean / (noise_norm eps est clean + eps) + eps)"
  by (simp add: spec_snr_def target_norm_def noise_norm_def)

lemma map2_nth_sum:
  "length xs = length ys \<Longrightarrow>
   sum_list (map2 f xs ys) = sum_list (map (\<lambda>i. f (xs ! i) (ys ! i)) [0..<length xs])"
  by (simp add: map_zip_nth [where n = "length xs"])

subsection \<open>The loss is the formula of the specification\<close>

text \<open>
  C6: for a batch of \<open>B \<ge> 1\<close> estimate and clean spectra of one common size
  \<open>n \<ge> 1\<close>, \<^verbatim>\<open>stft_snr\<close> with its default \<open>\<epsilon> = 10\<^sup>-\<^sup>8\<close> returns exactly the loss
  of the specification: target \<open>= (est\<cdot>clean) / (clean\<cdot>clean + \<epsilon>) \<cdot> clean\<close>, error
  \<open>= est - target\<close>, snr \<open>= 10 log\<^sub>1\<^sub>0 (\<parallel>target\<parallel>\<^sup>2 / (\<parallel>error\<parallel>\<^sup>2 + \<epsilon>) + \<epsilon>)\<close>, and the negated
  mean of snr over the batch.
\<close>

theorem stft_snr_matches_spec:
  assumes "est \<noteq> []" and "length est = length clean"
    and "\<forall>r \<in> set est. length r = n" and "\<forall>r \<in> set clean. length r = n" and "0 < n"
  shows "stft_snr est clean (1 / 10 ^ 8) = Inr (spec_snr_loss est clean)"
proof -
  have "stft_snr est clean (1 / 10 ^ 8)
        = Inr (- (sum_list (map (\<lambda>i. spec_snr (1 / 10 ^ 8) (est ! i) (clean ! i)) [0..<length est])
                  / real (length est)))"
    using assms by (intro stft_snr_rows [where n = n and B = "length est"]) auto
  then show ?thesis
    using assms(2) by (simp add: spec_snr_loss_def map2_nth_sum)
qed

text \<open>The hypotheses of C6 hold for a batch of two items of size two.\<close>

theorem stft_snr_matches_spec_witness:
  "[[1, 1], [0, 2]] \<noteq> ([] :: real list list)
   \<and> length [[1, 1], [0, 2 :: real]] = length [[1, 0], [3, 1 :: real]]
   \<and> stft_snr [[1, 1], [0, 2]] [[1, 0], [3, 1]] (1 / 10 ^ 8)
       = Inr (spec_snr_loss [[1, 1], [0, 2]] [[1, 0], [3, 1]])"
  using stft_snr_matches_spec [of "[[1, 1], [0, 2]]" "[[1, 0], [3, 1]]" 2]
  by simp

subsection \<open>Scaling the estimate\<close>

lemma dot_scale: "dot (map (\<lambda>c. k * c) x) (map (\<lambda>c. j * c) y) = k * j * dot x y"
proof (induction x arbitrary: y)
  case Nil
  then show ?case by (simp add: dot_def)
next
  case (Cons a x)
  then show ?case by (cases y) (simp_all add: dot_def algebra_simps)
qed

lemma dot_scale_left: "dot (map (\<lambda>c. k * c) x) y = k * dot x y"
  using dot_scale [of k x 1 y] by simp

lemma spec_target_scale:
  "spec_target eps (map (\<lambda>c. a * c) est) clean = map (\<lambda>c. a * c) (spec_target eps est clean)"
  by (simp add: spec_target_def dot_scale_left mult.assoc)

lemma spec_error_scale:
  "spec_error eps (map (\<lambda>c. a * c) est) clean = map (\<lambda>c. a * c) (spec_error eps est clean)"
  unfolding spec_error_def spec_target_scale
  by (auto simp: list_eq_iff_nth_eq algebra_simps)

lemma target_norm_scale:
  "target_norm eps (map (\<lambda>c. a * c) est) clean = a\<^sup>2 * target_norm eps est clean"
  by (simp add: target_norm_def spec_target_scale dot_scale power2_eq_square)

lemma noise_norm_scale:
  "noise_norm eps (map (\<lambda>c. a * c) est) clean = a\<^sup>2 * noise_norm eps est clean"
  by (simp add: noise_norm_def spec_error_scale dot_scale power2_eq_square)

lemma spec_snr_scale:
  assumes "0 < a"
  shows "spec_snr eps (map (\<lambda>c. a * c) est) clean
         = 10 * log 10 (target_norm eps est clean / (noise_norm eps est clean + eps / a\<^sup>2) + eps)"
proof -
  have "a\<^sup>2 * target_norm eps est clean / (a\<^sup>2 * noise_norm eps est clean + eps)
        = target_norm eps est clean / (noise_norm eps est clean + eps / a\<^sup>2)"
  proof -
    have "a\<^sup>2 * noise_norm eps est clean + eps = a\<^sup>2 * (noise_norm eps est clean + eps / a\<^sup>2)"
      using assms by (simp add: algebra_simps)
    then show ?thesis using assms by simp
  qed
  then show ?thesis
    by (simp add: spec_snr_norms target_norm_scale noise_norm_scale)
qed

text \<open>
  C4, amended: scaling the estimate by \<open>a > 0\<close> scales the target and the error by
  \<open>a\<close>, and the loss of the scaled estimate is the loss formula of the unscaled estimate with
  the \<open>\<epsilon>\<close> next to the error energy replaced by \<open>\<epsilon> / a\<^sup>2\<close>. The loss is therefore
  not invariant under scaling for \<open>\<epsilon> = 10\<^sup>-\<^sup>8\<close>; it would be for \<open>\<epsilon> = 0\<close>.
\<close>

theorem stft_snr_scaled_estimate:
  assumes "est \<noteq> []" and "length est = length clean"
    and "\<forall>r \<in> set est. length r = n" and "\<forall>r \<in> set clean. length r = n" and "0 < n"
    and "0 < a" and "0 < eps"
  shows "stft_snr (scalar_mul a est) clean eps
         = Inr (- (sum_list (map2 (\<lambda>e c. 10 * log 10 (target_norm eps e c
                                             / (noise_norm eps e c + eps / a\<^sup>2) + eps)) est clean)
                   / real (length est)))"
proof -
  have e1: "stft_snr (scalar_mul a est) clean eps
        = Inr (- (sum_list (map (\<lambda>i. spec_snr eps (scalar_mul a est ! i) (clean ! i)) [0..<length est])
                  / real (length est)))"
    using assms
    by (intro stft_snr_rows [where n = n and B = "length est"]) (auto simp: scalar_mul_def)
  have e2: "map (\<lambda>i. spec_snr eps (scalar_mul a est ! i) (clean ! i)) [0..<length est]
        = map (\<lambda>i. 10 * log 10 (target_norm eps (est ! i) (clean ! i)
                      / (noise_norm eps (est ! i) (clean ! i) + eps / a\<^sup>2) + eps)) [0..<length est]"
    using assms(6) by (simp add: scalar_mul_def spec_snr_scale)
  have e3: "sum_list (map2 (\<lambda>e c. 10 * log 10 (target_norm eps e c
                                             / (noise_norm eps e c + eps / a\<^sup>2) + eps)) est clean)
        = sum_list (map (\<lambda>i. 10 * log 10 (target_norm eps (est ! i) (clean ! i)
                      / (noise_norm eps (est ! i) (clean ! i) + eps / a\<^sup>2) + eps)) [0..<length est])"
    using assms(2) by (rule map2_nth_sum)
  show ?thesis
    by (simp only: e1 e2 e3)
qed

text \<open>Unfolding the loss on a concrete batch.\<close>

lemmas snr_eval = stft_snr_def reshape_rows_def t_mul_def t_sub_def t_div_def t_log10_def t_mean_def
  bzip_def sum_keepdim_def add_scalar_def scalar_mul_def

text \<open>
  A batch of one item without samples is accepted: every sum is empty, the ratio is 0, and
  the loss is \<open>- 10 log\<^sub>1\<^sub>0 eps\<close>, which is 80 for the default \<open>eps\<close>.
\<close>

lemma stft_snr_empty_rows: "stft_snr [[]] [[]] (1 / 10 ^ 8) = Inr 80"
proof -
  have "log 10 (1 / 10 ^ 8) = - 8"
    using log_pow_cancel [of 10 8] by (simp add: log_divide)
  then show ?thesis
    by (simp add: snr_eval)
qed

text \<open>
  C4, as stated, fails: for the estimate \<open>(1, 1)\<close> and the clean signal \<open>(1, 0)\<close> the
  loss is about 0 dB, and for the estimate scaled by \<open>10\<^sup>-\<^sup>4\<close> it is about 3 dB.
\<close>

theorem snr_scale_counterexample:
  "stft_snr (scalar_mul (1 / 10000) [[1, 1]]) [[1, 0]] (1 / 10 ^ 8)
   \<noteq> stft_snr [[1, 1]] [[1, 0]] (1 / 10 ^ 8)"
proof -
  have "log 10 (1000000020000000400000003 / 2000000040000000300000000 :: real)
        < log 10 (100000001000000030000000400000001 / 100000003000000040000000100000000)"
    by simp
  then have ne: "log 10 (1000000020000000400000003 / 2000000040000000300000000 :: real)
        \<noteq> log 10 (100000001000000030000000400000001 / 100000003000000040000000100000000)"
    by (rule less_imp_neq)
  show ?thesis
    by (simp add: snr_eval ne)
qed

text \<open>The hypotheses of the amended C4 hold at that estimate and that factor.\<close>

theorem stft_snr_scaled_estimate_witness:
  "[[1, 1]] \<noteq> ([] :: real list list) \<and> (0 :: real) < 1 / 10000 \<and> (0 :: real) < 1 / 10 ^ 8
   \<and> stft_snr (scalar_mul (1 / 10000) [[1, 1]]) [[1, 0]] (1 / 10 ^ 8)
       = Inr (- (sum_list (map2 (\<lambda>e c. 10 * log 10 (target_norm (1 / 10 ^ 8) e c
                 / (noise_norm (1 / 10 ^ 8) e c + (1 / 10 ^ 8) / (1 / 10000)\<^sup>2) + 1 / 10 ^ 8))
                 [[1, 1]] [[1, 0]])
              / real (length [[1, 1 :: real]])))"
  using stft_snr_scaled_estimate [of "[[1, 1]]" "[[1, 0]]" 2 "1 / 10000" "1 / 10 ^ 8"]
  by simp

subsection \<open>A signal against itself\<close>

lemma snr_self_ratio:
  fixes e n :: real
  assumes "0 < e" "0 < n"
  shows "(n / (n + e))\<^sup>2 * n / ((1 - n / (n + e))\<^sup>2 * n + e)
         = n ^ 3 / (e * (e * n + (n + e)\<^sup>2))"
proof -
  have ne: "n + e \<noteq> 0" using assms by linarith
  have k1: "1 - n / (n + e) = e / (n + e)"
    using ne by (simp add: field_simps)
  have num: "(n / (n + e))\<^sup>2 * n = n ^ 3 / (n + e)\<^sup>2"
    by (simp add: power_divide power3_eq_cube power2_eq_square)
  have sq: "(n + e)\<^sup>2 \<noteq> 0" using ne by simp
  have "(e / (n + e))\<^sup>2 * n + e = e\<^sup>2 * n / (n + e)\<^sup>2 + e * (n + e)\<^sup>2 / (n + e)\<^sup>2"
    using sq by (simp add: power_divide)
  also have "\<dots> = (e\<^sup>2 * n + e * (n + e)\<^sup>2) / (n + e)\<^sup>2"
    by (simp add: add_divide_distrib)
  also have "e\<^sup>2 * n + e * (n + e)\<^sup>2 = e * (e * n + (n + e)\<^sup>2)"
    by (simp add: algebra_simps power2_eq_square)
  finally have den: "(e / (n + e))\<^sup>2 * n + e = e * (e * n + (n + e)\<^sup>2) / (n + e)\<^sup>2" .
  show ?thesis
    unfolding k1 num den using ne by simp
qed

lemma snr_self_lower:
  fixes e n :: real
  assumes "0 < e" "e \<le> 1" "1 + 4 * e \<le> n"
  shows "1 / e \<le> (n / (n + e))\<^sup>2 * n / ((1 - n / (n + e))\<^sup>2 * n + e)"
proof -
  have n1: "1 \<le> n" and npos: "0 < n" using assms by linarith+
  have a1: "n\<^sup>2 * (1 + 4 * e) \<le> n\<^sup>2 * n"
    using assms(3) by (intro mult_left_mono) simp_all
  have a2: "n \<le> n\<^sup>2"
    using n1 by (simp add: power2_eq_square)
  have a3: "4 * e * n \<le> 4 * e * n\<^sup>2"
    using a2 assms(1) by simp
  have a4: "e * e \<le> e * n"
    using assms n1 by (intro mult_left_mono) linarith+
  have key: "e * n + (n + e)\<^sup>2 \<le> n ^ 3"
    using a1 a3 a4 by (simp add: power2_eq_square power3_eq_cube algebra_simps)
  have dpos: "0 < e * (e * n + (n + e)\<^sup>2)"
    using assms(1) npos by (intro mult_pos_pos add_pos_nonneg) simp_all
  have "e * (e * n + (n + e)\<^sup>2) \<le> e * n ^ 3"
    using key assms(1) by (intro mult_left_mono) simp_all
  then have "1 / e \<le> n ^ 3 / (e * (e * n + (n + e)\<^sup>2))"
    using dpos assms(1) by (simp add: field_simps)
  then show ?thesis
    using assms(1) npos by (simp add: snr_self_ratio)
qed

lemma snr_self_upper:
  fixes e n :: real
  assumes "0 < e" "0 < n"
  shows "(n / (n + e))\<^sup>2 * n / ((1 - n / (n + e))\<^sup>2 * n + e) < n / e"
proof -
  have dpos: "0 < e * n + (n + e)\<^sup>2"
    using assms by (intro add_pos_nonneg mult_pos_pos) simp_all
  have "n\<^sup>2 < e * n + (n + e)\<^sup>2"
    using assms by (simp add: power2_eq_square algebra_simps add_pos_pos)
  then have "n * n\<^sup>2 < n * (e * n + (n + e)\<^sup>2)"
    using assms(2) by (simp add: mult_less_cancel_left)
  moreover have "n * n\<^sup>2 = n ^ 3"
    by (simp add: power3_eq_cube power2_eq_square)
  moreover have "n / e * (e * (e * n + (n + e)\<^sup>2)) = n * (e * n + (n + e)\<^sup>2)"
    using assms(1) by simp
  ultimately have "n ^ 3 < n / e * (e * (e * n + (n + e)\<^sup>2))"
    by simp
  moreover have "0 < e * (e * n + (n + e)\<^sup>2)"
    using dpos assms(1) by (rule mult_pos_pos [rotated])
  ultimately have "n ^ 3 / (e * (e * n + (n + e)\<^sup>2)) < n / e"
    by (simp only: pos_divide_less_eq)
  then show ?thesis
    using assms by (simp add: snr_self_ratio)
qed

lemma dot_Nil_iff: "dot x x = 0 \<longleftrightarrow> (\<forall>v \<in> set x. v = 0)"
  unfolding dot_def
proof (induction x)
  case Nil
  then show ?case by simp
next
  case (Cons a x)
  have "0 \<le> sum_list (map2 (*) x x)"
    using dot_self_nonneg [of x] by (simp add: dot_def)
  then show ?case
    using Cons by (auto simp: add_nonneg_eq_0_iff)
qed

lemma spec_target_self:
  "spec_target eps x x = map (\<lambda>c. dot x x / (dot x x + eps) * c) x"
  by (simp add: spec_target_def)

lemma spec_error_self:
  "spec_error eps x x = map (\<lambda>c. (1 - dot x x / (dot x x + eps)) * c) x"
  unfolding spec_error_def spec_target_self
  by (auto simp: list_eq_iff_nth_eq algebra_simps)

lemma spec_snr_self:
  "spec_snr eps x x
   = 10 * log 10 ((dot x x / (dot x x + eps))\<^sup>2 * dot x x
                  / ((1 - dot x x / (dot x x + eps))\<^sup>2 * dot x x + eps) + eps)"
  unfolding spec_snr_def spec_target_self spec_error_self dot_scale
  by (simp add: power2_eq_square)

lemma log10_1e8: "log 10 100000000 = (8 :: real)"
  using log_pow_cancel [of 10 8] by simp

lemma spec_snr_negated:
  "spec_snr eps (map uminus est) clean = spec_snr eps est clean"
proof -
  have "map uminus est = map (\<lambda>c. (- 1) * c) est" by simp
  then show ?thesis
    by (simp only: spec_snr_norms target_norm_scale noise_norm_scale) simp
qed

lemma stft_snr_single:
  assumes "x \<noteq> []" "length y = length x" "0 < eps"
  shows "stft_snr [y] [x] eps = Inr (- spec_snr eps y x)"
  using stft_snr_rows [of "[y]" 1 "[x]" "length x" eps] assms by simp

text \<open>
  C2, amended: for a signal \<open>x\<close> of energy \<open>\<parallel>x\<parallel>\<^sup>2 \<ge> 1 + 4 \<cdot> 10\<^sup>-\<^sup>8\<close>, the snr of \<open>x\<close>
  against itself is above 80 dB and below \<open>10 log\<^sub>1\<^sub>0 (\<parallel>x\<parallel>\<^sup>2 / \<epsilon> + \<epsilon>)\<close>, and the snr of
  \<open>-x\<close> against \<open>x\<close> is the same number: the projection removes the sign.
\<close>

theorem snr_sanity:
  assumes "1 + 4 / 10 ^ 8 \<le> dot x x"
  shows "\<exists>s. stft_snr [x] [x] (1 / 10 ^ 8) = Inr (- s)
           \<and> 80 < s
           \<and> s < 10 * log 10 (dot x x * 10 ^ 8 + 1 / 10 ^ 8)
           \<and> stft_snr [map uminus x] [x] (1 / 10 ^ 8) = Inr (- s)"
proof -
  define e :: real where "e = 1 / 10 ^ 8"
  define n where "n = dot x x"
  define r where "r = (n / (n + e))\<^sup>2 * n / ((1 - n / (n + e))\<^sup>2 * n + e)"
  have e: "0 < e" "e \<le> 1" by (simp_all add: e_def)
  have n: "1 + 4 * e \<le> n" using assms by (simp add: e_def n_def)
  then have npos: "0 < n" using e by linarith
  have "x \<noteq> []" using npos by (auto simp: n_def dot_def)
  then have s1: "stft_snr [x] [x] e = Inr (- spec_snr e x x)"
    and s2: "stft_snr [map uminus x] [x] e = Inr (- spec_snr e x x)"
    using e stft_snr_single [of x x e] stft_snr_single [of x "map uminus x" e]
    by (simp_all add: spec_snr_negated)
  have val: "spec_snr e x x = 10 * log 10 (r + e)"
    by (simp add: spec_snr_self r_def n_def)
  have lo: "1 / e \<le> r" unfolding r_def using e n by (rule snr_self_lower)
  have hi: "r < n / e" unfolding r_def using e(1) npos by (rule snr_self_upper)
  have "10 ^ 8 < r + e" using lo e by (simp add: e_def)
  then have "log 10 (10 ^ 8) < log 10 (r + e)"
    by (subst log_less_cancel_iff) simp_all
  then have b1: "80 < spec_snr e x x"
    by (simp add: val log10_1e8)
  have rpos: "0 < r + e" using lo e by (simp add: e_def)
  have "r + e < n / e + e" using hi by simp
  then have "log 10 (r + e) < log 10 (n / e + e)"
    using rpos by (subst log_less_cancel_iff) simp_all
  then have "spec_snr e x x < 10 * log 10 (n / e + e)"
    by (simp add: val)
  moreover have "n / e + e = n * 10 ^ 8 + 1 / 10 ^ 8"
    by (simp add: e_def)
  ultimately have b2: "spec_snr e x x < 10 * log 10 (n * 10 ^ 8 + 1 / 10 ^ 8)"
    by simp
  show ?thesis
    using s1 s2 b1 b2 unfolding e_def n_def by blast
qed

text \<open>The one-sample signal \<open>(2)\<close> has enough energy.\<close>

theorem snr_sanity_witness:
  "(1 :: real) + 4 / 10 ^ 8 \<le> dot [2] [2]
   \<and> (\<exists>s. stft_snr [[2]] [[2]] (1 / 10 ^ 8) = Inr (- s)
          \<and> 80 < s
          \<and> s < 10 * log 10 (dot [2] [2] * 10 ^ 8 + 1 / 10 ^ 8)
          \<and> stft_snr [map uminus [2]] [[2]] (1 / 10 ^ 8) = Inr (- s))"
proof -
  have h: "(1 :: real) + 4 / 10 ^ 8 \<le> dot [2] [2]" by (simp add: dot_def)
  show ?thesis using h snr_sanity [OF h] by blast
qed

text \<open>
  C2, as stated, fails twice. The nonzero signal \<open>(10\<^sup>-\<^sup>4)\<close> against itself has a
  negative snr (about -7 dB), and \<open>(-2)\<close> against \<open>(2)\<close> has an snr above 80 dB instead
  of a very negative one.
\<close>

theorem snr_sanity_counterexample:
  "stft_snr [[1 / 10000]] [[1 / 10000]] (1 / 10 ^ 8) = Inr (- (10 * log 10 (20000001 / 100000000)))
   \<and> 10 * log 10 (20000001 / 100000000) < (0 :: real)
   \<and> stft_snr [[- 2]] [[2]] (1 / 10 ^ 8)
       = Inr (- (10 * log 10 (6400000000000000160000001200000001 / 16000000120000000100000000)))
   \<and> (80 :: real) < 10 * log 10 (6400000000000000160000001200000001 / 16000000120000000100000000)"
proof -
  have a: "stft_snr [[1 / 10000]] [[1 / 10000]] (1 / 10 ^ 8)
           = Inr (- (10 * log 10 (20000001 / 100000000)))"
    by (simp add: snr_eval)
  have b: "10 * log 10 (20000001 / 100000000) < (0 :: real)"
    by simp
  have c: "stft_snr [[- 2]] [[2]] (1 / 10 ^ 8)
           = Inr (- (10 * log 10 (6400000000000000160000001200000001 / 16000000120000000100000000)))"
    by (simp add: snr_eval)
  have "log 10 (10 ^ 8) < log 10 (6400000000000000160000001200000001 / 16000000120000000100000000 :: real)"
    by (subst log_less_cancel_iff) simp_all
  then have d: "(80 :: real) < 10 * log 10 (6400000000000000160000001200000001 / 16000000120000000100000000)"
    by (simp add: log10_1e8)
  show ?thesis using a b c d by blast
qed

section \<open>Properties of the compositor's scoring\<close>

lemma filter_loop_scores:
  "(case traverse (resolution_score ext st e c) fs of
      Inl err \<Rightarrow> isl (filter_loop ext st e c fs (s0, p0))
    | Inr rs \<Rightarrow> filter_loop ext st e c fs (s0, p0)
                 = Inr (s0 + sum_list (map fst rs), p0 + sum_list (map snd rs)))"
proof (induction fs arbitrary: s0 p0)
  case Nil
  then show ?case by simp
next
  case (Cons f fs)
  show ?case
  proof (cases "resolution_score ext st e c f")
    case (Inl err)
    then show ?thesis
      by (auto simp: resolution_score_def bind_res_def split: sum.splits)
  next
    case (Inr r)
    obtain s p where r: "r = (s, p)" by (cases r)
    from Inr r have step: "filter_loop ext st e c (f # fs) (s0, p0)
                      = filter_loop ext st e c fs (s0 + s, p0 + p)"
      by (auto simp: resolution_score_def bind_res_def split: sum.splits)
    show ?thesis
      using Cons.IH [of "s0 + s" "p0 + p"] Inr r step
      by (auto simp: bind_res_def add.assoc split: sum.splits)
  qed
qed

text \<open>
  C7: whenever every resolution (the model engine and each auxiliary engine) yields its
  pair of scores, \<^verbatim>\<open>forward\<close> returns the sum of the snr losses and the sum of the
  perceptual scores, each divided by the number of resolutions; when a resolution raises,
  so does \<^verbatim>\<open>forward\<close>. Without auxiliary engines the result is exactly the pair of the
  model resolution.
\<close>

theorem forward_unweighted_mean:
  "(case traverse (resolution_score ext st e c) (model_stft st # stfts st) of
      Inl err \<Rightarrow> isl (forward ext st e c)
    | Inr rs \<Rightarrow> forward ext st e c
                 = Inr (sum_list (map fst rs) / real (length (stfts st) + 1),
                        sum_list (map snd rs) / real (length (stfts st) + 1)))
   \<and> (stfts st = [] \<longrightarrow> forward ext st e c = resolution_score ext st e c (model_stft st))"
proof
  show "case traverse (resolution_score ext st e c) (model_stft st # stfts st) of
      Inl err \<Rightarrow> isl (forward ext st e c)
    | Inr rs \<Rightarrow> forward ext st e c
                 = Inr (sum_list (map fst rs) / real (length (stfts st) + 1),
                        sum_list (map snd rs) / real (length (stfts st) + 1))"
  proof (cases "resolution_score ext st e c (model_stft st)")
    case (Inl err)
    then show ?thesis
      by (auto simp: resolution_score_def forward_def bind_res_def split: sum.splits)
  next
    case (Inr r)
    obtain s p where r: "r = (s, p)" by (cases r)
    from Inr r have step: "forward ext st e c
        = bind_res (filter_loop ext st e c (stfts st) (s, p)) (\<lambda>(a, b).
            Inr (a / real (length (stfts st) + 1), b / real (length (stfts st) + 1)))"
      by (auto simp: resolution_score_def forward_def bind_res_def split: sum.splits)
    show ?thesis
      using filter_loop_scores [of ext st e c "stfts st" s p] Inr r
      by (auto simp: step bind_res_def split: sum.splits)
  qed
  show "stfts st = [] \<longrightarrow> forward ext st e c = resolution_score ext st e c (model_stft st)"
    by (auto simp: resolution_score_def forward_def bind_res_def split: sum.splits)
qed

lemma toy_filter_init:
  "APC_SNR_multi_filter_init spec_classes 128 512 (1 / 100) 256 (HopsList []) = Inr toy_filter"
  by (simp add: APC_SNR_multi_filter_init_def spec_classes_def construct_def
        engine_config_error_def bind_res_def ConvSTFT_def toy_filter_def)

text \<open>A compositor constructed without auxiliary hops has no auxiliary engine.\<close>

theorem forward_unweighted_mean_witness:
  "stfts toy_filter = []
   \<and> forward toy_externals toy_filter [[1, 2]] [[1, 1]]
       = resolution_score toy_externals toy_filter [[1, 2]] [[1, 1]] (model_stft toy_filter)"
  using forward_unweighted_mean [of toy_externals toy_filter "[[1, 2]]" "[[1, 1]]"]
  by (simp add: toy_filter_def)

section \<open>Properties of the voice-activity mask\<close>

lemma py_slice_inside:
  "0 \<le> a \<Longrightarrow> a + w \<le> int (length xs) \<Longrightarrow> 0 \<le> w \<Longrightarrow>
   py_slice xs a (a + w) = take (nat w) (drop (nat a) xs)"
  by (auto simp: py_slice_def Let_def min_def max_def take_drop nat_add_distrib add.commute)

lemma take_drop_length:
  fixes k w :: int
  assumes "0 \<le> k" "0 \<le> w" "k + w \<le> int (length row)"
  shows "int (length (take (nat w) (drop (nat k) row))) = w"
proof -
  have "nat w \<le> length row - nat k" using assms by linarith
  then show ?thesis using assms by (simp add: min_def)
qed

lemma vad_frame_inside:
  assumes "0 \<le> a" "a * hop st + winlen st \<le> int (length row)" "0 \<le> winlen st" "0 < hop st"
  shows "vad_frame st row a = Inr (take (nat (winlen st)) (drop (nat (a * hop st)) row))"
proof -
  have k: "0 \<le> a * hop st" using assms by simp
  then have "py_slice row (a * hop st) (a * hop st + winlen st)
             = take (nat (winlen st)) (drop (nat (a * hop st)) row)"
    using assms by (intro py_slice_inside) simp_all
  moreover have "int (length (take (nat (winlen st)) (drop (nat (a * hop st)) row))) = winlen st"
    using k assms(3) assms(2) by (rule take_drop_length)
  ultimately show ?thesis
    by (simp add: vad_frame_def)
qed


lemma frame_start_bound:
  fixes L w h :: int
  assumes "0 < h" "w \<le> L" "int i < 1 + (L - w) div h"
  shows "int i * h + w \<le> L"
proof -
  have "int i \<le> (L - w) div h" using assms(3) by simp
  then have "int i * h \<le> (L - w) div h * h"
    using assms(1) by (simp add: mult_right_mono)
  also have "\<dots> \<le> L - w"
  proof -
    have "(L - w) div h * h + (L - w) mod h = L - w" by simp
    moreover have "0 \<le> (L - w) mod h" using assms(1) by simp
    ultimately show ?thesis by linarith
  qed
  finally show ?thesis by simp
qed

text \<open>
  C9: for a positive hop, a voice-activity signal of at least one frame and at most \<open>T\<close>
  computed frames, the mask is built without error; frame \<open>t\<close> below the computed number
  of frames has weight 1 when the sum of its \<open>winlen\<close> samples is positive and 0.1
  otherwise, and every later frame up to \<open>T\<close> has weight 0.
\<close>

theorem vad_mask_weights:
  assumes hop: "0 < hop st" and win: "0 \<le> winlen st"
    and ne: "mix_vad \<noteq> []" and len: "\<forall>row \<in> set mix_vad. int (length row) = L"
    and fit: "winlen st \<le> L" and frames: "nat (1 + (L - winlen st) div hop st) \<le> T"
  shows "\<exists>vmask. vad_mask st mix_vad T = Inr vmask \<and> length vmask = length mix_vad \<and>
           (\<forall>b < length mix_vad. length (vmask ! b) = T \<and>
              (\<forall>t < T. vmask ! b ! t =
                 (if int t < 1 + (L - winlen st) div hop st
                  then [if 0 < sum_list (take (nat (winlen st)) (drop (t * nat (hop st)) (mix_vad ! b)))
                        then 1 else 1 / 10]
                  else [0])))"
proof -
  define F where "F = nat (1 + (L - winlen st) div hop st)"
  define fr where "fr row i = take (nat (winlen st)) (drop (i * nat (hop st)) row)" for row :: "real list" and i
  define wt where "wt row i = [if 0 < sum_list (fr row i) then 1 else 1 / 10 :: real]" for row i
  have hdL: "int (length (hd mix_vad)) = L" using ne len by simp
  have q: "0 \<le> (L - winlen st) div hop st"
    using hop fit by (simp add: pos_imp_zdiv_nonneg_iff)
  then have Fpos: "int F = 1 + (L - winlen st) div hop st" by (simp add: F_def)
  have one: "vad_frame st row a = Inr (fr row (nat a))"
    if r: "row \<in> set mix_vad" and a: "a \<in> set (map int [0..<F])" for row a
  proof -
    obtain i where i: "a = int i" "i < F" using a by auto
    then have "int i < 1 + (L - winlen st) div hop st" using Fpos by simp
    then have "int i * hop st + winlen st \<le> L"
      using hop fit by (intro frame_start_bound) simp_all
    then have "a * hop st + winlen st \<le> int (length row)"
      using len r i by simp
    moreover have "nat (a * hop st) = nat a * nat (hop st)"
      using i hop by (simp add: nat_mult_distrib)
    ultimately show ?thesis
      using vad_frame_inside [of a st row] i win hop by (simp add: fr_def)
  qed
  have rows: "traverse (vad_frame st row) (map int [0..<F]) = Inr (map (\<lambda>a. fr row (nat a)) (map int [0..<F]))"
    if "row \<in> set mix_vad" for row
    by (rule traverse_Inr) (rule one [OF that])
  have all: "traverse (\<lambda>row. traverse (vad_frame st row) (map int [0..<F])) mix_vad
             = Inr (map (\<lambda>row. map (\<lambda>a. fr row (nat a)) (map int [0..<F])) mix_vad)"
    by (rule traverse_Inr) (rule rows)
  define vmask where
    "vmask = map (\<lambda>row. map (wt row) [0..<F] @ replicate (T - F) [0]) mix_vad"
  have res: "vad_mask st mix_vad T = Inr vmask"
    using hop win ne q frames
    by (simp add: vad_mask_def hdL F_def [symmetric] all vmask_def wt_def comp_def Let_def)
  have nth: "length (vmask ! b) = T \<and>
              (\<forall>t < T. vmask ! b ! t =
                 (if int t < 1 + (L - winlen st) div hop st
                  then [if 0 < sum_list (take (nat (winlen st)) (drop (t * nat (hop st)) (mix_vad ! b)))
                        then 1 else 1 / 10]
                  else [0]))"
    if "b < length mix_vad" for b
  proof -
    have vb: "vmask ! b = map (wt (mix_vad ! b)) [0..<F] @ replicate (T - F) [0]"
      using that by (simp add: vmask_def)
    have FT: "F \<le> T" using frames by (simp add: F_def)
    have l: "length (vmask ! b) = T" using FT by (simp add: vb)
    have "vmask ! b ! t = (if int t < int F then wt (mix_vad ! b) t else [0])" if "t < T" for t
      using that FT by (simp add: vb nth_append)
    then show ?thesis
      using l by (simp add: Fpos wt_def fr_def)
  qed
  have "length vmask = length mix_vad" by (simp add: vmask_def)
  with res nth show ?thesis by blast
qed

text \<open>Eight samples, frames of four, hop two, five spectral frames.\<close>

theorem vad_mask_weights_witness:
  "vad_mask (APC_SNR_init 2 4 (1 / 100) 256) [[0, 0, 0, 0, 1, 1, 0, 0]] 5
   = Inr [[[1 / 10], [1], [1], [0], [0]]]"
proof -
  obtain vmask where v: "vad_mask (APC_SNR_init 2 4 (1 / 100) 256) [[0, 0, 0, 0, 1, 1, 0, 0]] 5 = Inr vmask"
    using vad_mask_weights [of "APC_SNR_init 2 4 (1 / 100) 256" "[[0, 0, 0, 0, 1, 1, 0, 0]]" 8 5]
    by (auto simp: APC_SNR_init_def)
  then show ?thesis
    by (simp add: vad_mask_def APC_SNR_init_def vad_frame_def py_slice_def Let_def upt_rec numeral_2_eq_2)
qed

section \<open>Properties of the engine's construction\<close>

text \<open>
  C10: with the window name \<^verbatim>\<open>"hann sqrt"\<close> the constructor raises for every frame
  length, hop and transform size, before any kernel is built: \<^verbatim>\<open>NameError\<close> from the
  unbound name, or \<^verbatim>\<open>ValueError\<close> already from the default transform size of a negative
  frame length.
\<close>

theorem hann_sqrt_raises:
  "STFT_init lib nframe' nhop' nfft' (WinName ''hann sqrt'') center
   = Inl (if nfft' = None \<and> nframe' < 0 then ValueError else NameError)"
  by (cases nfft')
     (simp_all add: STFT_init_def init_conv_stft_kernels_def default_nfft_def)

text \<open>The constructor's own defaults with that window name.\<close>

theorem hann_sqrt_raises_witness:
  "STFT_init numlib_frame2 512 128 None (WinName ''hann sqrt'') True = Inl NameError"
  using hann_sqrt_raises [of numlib_frame2 512 128 None True] by simp

lemma default_nfft_pos:
  assumes "1 \<le> n"
  shows "default_nfft n = Inr (2 ^ nat \<lceil>log 2 (real_of_int n)\<rceil>)"
  using assms by (simp add: default_nfft_def)

lemma ceil_log2_upper:
  assumes "1 \<le> n"
  shows "n \<le> 2 ^ nat \<lceil>log 2 (real_of_int n)\<rceil>"
proof -
  have pos: "0 < real_of_int n" using assms by simp
  have "0 \<le> log 2 (real_of_int n)"
    using assms by (simp add: zero_le_log_cancel_iff)
  then have "- 1 < log 2 (real_of_int n)" by linarith
  then have nn: "0 \<le> \<lceil>log 2 (real_of_int n)\<rceil>"
    by simp
  have "real_of_int n \<le> 2 powr real_of_int \<lceil>log 2 (real_of_int n)\<rceil>"
    using pos by (subst log_le_iff [symmetric]) simp_all
  also have "\<dots> = 2 ^ nat \<lceil>log 2 (real_of_int n)\<rceil>"
    using nn by (simp add: powr_realpow [symmetric])
  finally have "real_of_int n \<le> real_of_int (2 ^ nat \<lceil>log 2 (real_of_int n)\<rceil>)" by simp
  then show ?thesis by (simp only: of_int_le_iff)
qed

lemma ceil_log2_least:
  assumes "1 \<le> n" "n \<le> 2 ^ j"
  shows "nat \<lceil>log 2 (real_of_int n)\<rceil> \<le> j"
proof -
  have pos: "0 < real_of_int n" using assms by simp
  have "real_of_int n \<le> 2 ^ j"
    using assms(2) by (metis of_int_le_iff of_int_numeral of_int_power)
  then have "real_of_int n \<le> 2 powr real j"
    by (simp add: powr_realpow)
  then have "log 2 (real_of_int n) \<le> real j"
    using pos by (subst log_le_iff) simp_all
  then show ?thesis
    by (simp add: nat_le_iff ceiling_le_iff)
qed

text \<open>
  C8: for a frame length \<open>n \<ge> 1\<close> the default transform size is a power of two, it is at
  least \<open>n\<close>, no smaller power of two is, and it is the transform size of every engine
  constructed without one (logarithm, ceiling and power in exact arithmetic).
\<close>

theorem default_nfft_smallest_power:
  assumes "1 \<le> n"
  shows "\<exists>m. default_nfft n = Inr (2 ^ m) \<and> n \<le> 2 ^ m \<and> (\<forall>j. n \<le> 2 ^ j \<longrightarrow> m \<le> j)
           \<and> (\<forall>st. STFT_init lib n h None w c = Inr st \<longrightarrow> nfft st = 2 ^ m)"
proof -
  let ?m = "nat \<lceil>log 2 (real_of_int n)\<rceil>"
  have d: "default_nfft n = Inr (2 ^ ?m)" using assms by (rule default_nfft_pos)
  have "nfft st = 2 ^ ?m" if "STFT_init lib n h None w c = Inr st" for st
    using that
    by (auto simp: STFT_init_def d bind_res_def split: sum.splits if_splits prod.splits)
  then show ?thesis
    using d ceil_log2_upper [OF assms] ceil_log2_least [OF assms] by blast
qed

lemma power2_eq_9:
  fixes m :: nat and n :: int
  assumes "256 < n" "n \<le> 512" "n \<le> 2 ^ m" "\<forall>j. n \<le> 2 ^ j \<longrightarrow> m \<le> j"
  shows "(2 :: int) ^ m = 512"
proof -
  have "n \<le> 2 ^ 9" using assms(2) by simp
  then have "m \<le> 9" using assms(4) by blast
  moreover have "\<not> m \<le> 8"
  proof
    assume "m \<le> 8"
    then have "(2 :: int) ^ m \<le> 2 ^ 8" by (intro power_increasing) simp_all
    then show False using assms(1,3) by simp
  qed
  ultimately have "m = 9" by simp
  then show ?thesis by simp
qed

text \<open>Frame lengths 400 and 512 both get the transform size 512.\<close>

theorem default_nfft_smallest_power_witness:
  "default_nfft 400 = Inr 512 \<and> default_nfft 512 = Inr 512"
proof -
  obtain m :: nat where m: "default_nfft 400 = Inr (2 ^ m)" "(400 :: int) \<le> 2 ^ m"
      "\<forall>j. (400 :: int) \<le> 2 ^ j \<longrightarrow> m \<le> j"
    using default_nfft_smallest_power [of 400 numlib_frame2 128 "WinName ''hann''" True]
    by auto
  have a: "default_nfft 400 = Inr 512"
    using m(1) power2_eq_9 [OF _ _ m(2) m(3)] by simp
  obtain k :: nat where k: "default_nfft 512 = Inr (2 ^ k)" "(512 :: int) \<le> 2 ^ k"
      "\<forall>j. (512 :: int) \<le> 2 ^ j \<longrightarrow> k \<le> j"
    using default_nfft_smallest_power [of 512 numlib_frame2 128 "WinName ''hann''" True]
    by auto
  have b: "default_nfft 512 = Inr 512"
    using k(1) power2_eq_9 [OF _ _ k(2) k(3)] by simp
  show ?thesis using a b by simp
qed

section \<open>Properties of the engine's analysis\<close>

subsection \<open>The engine for frames of two samples\<close>

lemma default_nfft_2: "default_nfft 2 = Inr 2"
  by (simp add: default_nfft_def)

lemma upt_2: "[0..<2] = [0, 1]" and upt_4: "[0..<4] = [0, 1, 2, 3]"
  by (simp_all add: upt_rec)

lemma fourier_kernel_2: "fourier_kernel 2 2 = Inr [[1, 1], [1, - 1], [0, 0], [0, 0]]"
  by (simp add: fourier_kernel_def py_slice_def Let_def upt_2 upt_4)

lemma hann_1: "hann 1 = [1]"
  by (simp add: hann_def)

lemma hann_2: "hann 2 = [0, 1]"
  by (simp add: hann_def upt_2)

lemma kernels_frame2:
  "init_conv_stft_kernels numlib_frame2 2 2 (WinName ''hann'') False
     = Inr ([[0, 1], [0, - 1], [0, 0], [0, 0]], [0, 1])"
  "init_conv_stft_kernels numlib_frame2 2 2 (WinName ''hann'') True
     = Inr ([[0, 1 / 2], [0, - 1 / 2], [0, 0], [0, 0]], [0, 1])"
  by (simp_all add: init_conv_stft_kernels_def numlib_frame2_def fourier_kernel_2 hann_2
        np_mul_row_def np_T_def transpose.simps)

lemma init_frame2:
  "STFT_init numlib_frame2 2 h None (WinName ''hann'') True = Inr (engine_frame2 h)"
  by (simp add: STFT_init_def default_nfft_2 kernels_frame2 engine_frame2_def eye_def upt_2)

lemma transform_frame2:
  "transform (engine_frame2 1) [[1]] = Inr [[[[1, - 1], [0, 0]], [[0, 0], [0, 0]]]]"
  by (simp add: transform_def transform_item_def engine_frame2_def pad_row_def conv1d_def
        kernel_size_def py_slice_def Let_def upt_2 lessThan_Suc numeral_2_eq_2)

subsection \<open>What construction and analysis check\<close>

lemma traverse_length: "traverse f xs = Inr ys \<Longrightarrow> length ys = length xs"
  by (induction xs arbitrary: ys) (auto simp: bind_res_def split: sum.splits)

lemma traverse_isl: "isl (traverse f xs) \<longleftrightarrow> (\<exists>x \<in> set xs. isl (f x))"
  by (induction xs) (auto simp: bind_res_def split: sum.splits)

lemma fourier_kernel_shape:
  "fourier_kernel N n = Inr K \<Longrightarrow> 0 < N \<and> length K = 2 * (nat N div 2 + 1)"
  by (auto simp: fourier_kernel_def Let_def split: if_splits)

lemma init_kernels_shape:
  assumes "init_conv_stft_kernels lib n N w False = Inr (kern, win)"
  shows "0 < N \<and> length kern = 2 * (nat N div 2 + 1)"
proof -
  obtain K where K: "fourier_kernel N n = Inr K"
    and t: "traverse (\<lambda>row. np_mul_row row win) K = Inr kern"
    using assms
    by (auto simp: init_conv_stft_kernels_def bind_res_def split: sum.splits)
  show ?thesis
    using fourier_kernel_shape [OF K] traverse_length [OF t] by simp
qed

lemma STFT_init_Inr:
  assumes "STFT_init lib n h nfft' w c = Inr st"
  obtains N kern window' inv_kernel unused where
    "(case nfft' of None \<Rightarrow> default_nfft n | Some m \<Rightarrow> Inr m) = Inr N"
    "init_conv_stft_kernels lib n N w False = Inr (kern, window')"
    "init_conv_stft_kernels lib n N w True = Inr (inv_kernel, unused)"
    "0 \<le> n"
    "st = \<lparr>nframe = n, nhop = h, pad = (if c then n div 2 else 0), nfft = N,
            weight = kern, inv_weight = inv_kernel, window = window',
            enframe = eye (nat n)\<rparr>"
  using assms
  by (auto simp: STFT_init_def bind_res_def split: sum.splits prod.splits if_splits)

lemma STFT_init_hop:
  assumes "STFT_init lib n h nfft' w c = Inr st"
  shows "STFT_init lib n h' nfft' w c = Inr (st\<lparr>nhop := h'\<rparr>)"
  using assms
  by (auto simp: STFT_init_def bind_res_def split: sum.splits prod.splits if_splits)

lemma transform_item_isl:
  assumes pad: "0 \<le> pad st" and N: "0 < nfft st"
    and w: "length (weight st) = 2 * (nat (nfft st) div 2 + 1)"
  shows "isl (transform_item st row) \<longleftrightarrow>
           nhop st \<le> 0 \<or> kernel_size (weight st) = 0
           \<or> length row + 2 * nat (pad st) < kernel_size (weight st)"
proof -
  let ?xp = "replicate (nat (pad st)) 0 @ row @ replicate (nat (pad st)) 0"
  have p: "pad_row (pad st) row = Inr ?xp" using pad by (simp add: pad_row_def)
  have l: "length ?xp = length row + 2 * nat (pad st)" by simp
  show ?thesis
  proof (cases "nhop st \<le> 0 \<or> kernel_size (weight st) = 0
                \<or> length row + 2 * nat (pad st) < kernel_size (weight st)")
    case True
    then have "conv1d (weight st) (nhop st) ?xp = Inl RuntimeError"
      by (auto simp: conv1d_def Let_def)
    then show ?thesis using True by (simp add: transform_item_def p)
  next
    case False
    then obtain out where out: "conv1d (weight st) (nhop st) ?xp = Inr out"
      and lo: "length out = length (weight st)"
      by (auto simp: conv1d_def Let_def)
    define F where "F = nat (nfft st) div 2 + 1"
    have dim: "nfft st div 2 + 1 = int F"
      using N by (simp add: F_def nat_div_distrib)
    have lF: "length out = 2 * F" using lo w by (simp add: F_def)
    have re: "length (py_slice out 0 (int F)) = F"
      using lF by (simp add: py_slice_def Let_def)
    have im: "length (py_slice out (int F) (int (length out))) = F"
      using lF by (simp add: py_slice_def Let_def)
    show ?thesis
      using False re im by (simp add: transform_item_def p out dim Let_def)
  qed
qed

text \<open>
  C5, amended: the constructor does not look at the hop length; when it succeeds for one
  hop it succeeds for every other, zero and negative ones included, with the same buffers.
  For a constructed engine and a batch that is not empty, \<^verbatim>\<open>transform\<close> raises (the
  \<^verbatim>\<open>RuntimeError\<close> of the convolution) exactly when the hop is not positive, the kernel
  is empty, or an input is shorter than the kernel after the padding.
\<close>

theorem engine_validation:
  assumes "STFT_init lib n h nfft' w c = Inr st" and "x \<noteq> []"
  shows "STFT_init lib n h' nfft' w c = Inr (st\<lparr>nhop := h'\<rparr>)
         \<and> (isl (transform st x) \<longleftrightarrow>
               h \<le> 0 \<or> kernel_size (weight st) = 0
               \<or> (\<exists>row \<in> set x. length row + 2 * nat (pad st) < kernel_size (weight st)))"
proof
  show "STFT_init lib n h' nfft' w c = Inr (st\<lparr>nhop := h'\<rparr>)"
    using assms(1) by (rule STFT_init_hop)
  obtain N kern window' inv_kernel unused where
    k: "init_conv_stft_kernels lib n N w False = Inr (kern, window')" and n: "0 \<le> n"
    and st: "st = \<lparr>nframe = n, nhop = h, pad = (if c then n div 2 else 0), nfft = N,
            weight = kern, inv_weight = inv_kernel, window = window',
            enframe = eye (nat n)\<rparr>"
    using assms(1) by (rule STFT_init_Inr)
  have pad: "0 \<le> pad st" using n by (simp add: st)
  have N: "0 < nfft st" and w: "length (weight st) = 2 * (nat (nfft st) div 2 + 1)"
    using init_kernels_shape [OF k] by (simp_all add: st)
  have h: "nhop st = h" by (simp add: st)
  show "isl (transform st x) \<longleftrightarrow>
               h \<le> 0 \<or> kernel_size (weight st) = 0
               \<or> (\<exists>row \<in> set x. length row + 2 * nat (pad st) < kernel_size (weight st))"
  proof -
    obtain r where "r \<in> set x" using assms(2) by (cases x) auto
    then show ?thesis
      by (auto simp: transform_def traverse_isl transform_item_isl [OF pad N w] h)
  qed
qed

text \<open>
  With frames of two samples and centring, the empty input passes (two samples after the
  padding), and the hop 0 is refused by the convolution only.
\<close>

theorem engine_validation_witness:
  "STFT_init numlib_frame2 2 1 None (WinName ''hann'') True = Inr (engine_frame2 1)
   \<and> STFT_init numlib_frame2 2 0 None (WinName ''hann'') True = Inr (engine_frame2 0)
   \<and> \<not> isl (transform (engine_frame2 1) [[]])
   \<and> isl (transform (engine_frame2 0) [[1, 2, 3]])"
proof -
  have i1: "STFT_init numlib_frame2 2 1 None (WinName ''hann'') True = Inr (engine_frame2 1)"
    and i0: "STFT_init numlib_frame2 2 0 None (WinName ''hann'') True = Inr (engine_frame2 0)"
    by (rule init_frame2)+
  have k: "kernel_size (weight (engine_frame2 a)) = 2" "pad (engine_frame2 a) = 1" for a
    by (simp_all add: engine_frame2_def kernel_size_def)
  have a: "\<not> isl (transform (engine_frame2 1) [[]])"
    using engine_validation [OF i1, of "[[]]" 0] by (simp add: k)
  have b: "isl (transform (engine_frame2 0) [[1, 2, 3]])"
    using engine_validation [OF i0, of "[[1, 2, 3]]" 0] by (simp add: k)
  show ?thesis using i1 i0 a b by simp
qed

text \<open>
  C5, as stated, fails: the constructor accepts the hop 0, and the input of one sample,
  shorter than the frame of two, is analysed into two frames.
\<close>

theorem engine_validation_counterexample:
  "STFT_init numlib_frame2 2 0 None (WinName ''hann'') True = Inr (engine_frame2 0)
   \<and> STFT_init numlib_frame2 2 1 None (WinName ''hann'') True = Inr (engine_frame2 1)
   \<and> transform (engine_frame2 1) [[1]] = Inr [[[[1, - 1], [0, 0]], [[0, 0], [0, 0]]]]"
  by (simp add: init_frame2 transform_frame2)

section \<open>Properties of the round trip\<close>

subsection \<open>Analysis and synthesis of one item\<close>

lemma window_power_nonneg: "0 \<le> window_power w s frames q"
  unfolding window_power_def by (intro sum_nonneg) simp

lemma kernel_size_map:
  "0 < C \<Longrightarrow> kernel_size (map (\<lambda>c. map (g c) [0..<k]) [0..<C]) = k"
  by (simp add: kernel_size_def hd_map hd_upt)

lemma map_upt_double:
  "map f [0..<F] @ map (\<lambda>b. f (F + b)) [0..<F] = map f [0..<2 * F]"
proof -
  have "[0..<2 * F] = [0..<F] @ map (\<lambda>b. F + b) [0..<F]"
    by (simp add: list_eq_iff_nth_eq nth_append)
  then show ?thesis by (simp add: comp_def)
qed

lemma conv1d_frames:
  assumes "0 < stride" "0 < C" "0 < k" "k \<le> length xp"
  shows "conv1d (map (\<lambda>c. map (g c) [0..<k]) [0..<C]) stride xp
         = Inr (map (\<lambda>c. map (\<lambda>f. \<Sum>j<k. g c j * xp ! (f * nat stride + j))
                              [0..<(length xp - k) div nat stride + 1]) [0..<C])"
  using assms by (simp add: conv1d_def kernel_size_map Let_def)


lemma py_slice_take: "py_slice (map h [0..<2 * F]) 0 (int F) = map h [0..<F]"
  by (simp add: py_slice_def Let_def take_map)

lemma py_slice_drop:
  "py_slice (map h [0..<2 * F]) (int F) (int (length (map h [0..<2 * F])))
   = map (\<lambda>b. h (F + b)) [0..<F]"
proof -
  have "drop F (map h [0..<2 * F]) = map h [F..<2 * F]"
    by (simp add: drop_map)
  also have "[F..<2 * F] = map (\<lambda>b. F + b) [0..<F]"
    by (simp add: list_eq_iff_nth_eq)
  finally show ?thesis
    by (simp add: py_slice_def Let_def comp_def)
qed

lemma transform_item_frames:
  fixes g :: "nat \<Rightarrow> nat \<Rightarrow> real"
  assumes hop: "0 < nhop st" and F: "0 < F" and k: "0 < k"
    and w: "weight st = map (\<lambda>c. map (g c) [0..<k]) [0..<2 * F]"
    and dim: "nfft st div 2 + 1 = int F"
    and pad: "0 \<le> pad st"
    and len: "k \<le> length row + 2 * nat (pad st)"
  defines "xp \<equiv> replicate (nat (pad st)) 0 @ row @ replicate (nat (pad st)) 0"
  defines "frames \<equiv> (length row + 2 * nat (pad st) - k) div nat (nhop st) + 1"
  defines "S \<equiv> \<lambda>c t. \<Sum>j<k. g c j * xp ! (t * nat (nhop st) + j)"
  shows "transform_item st row
         = Inr [map (\<lambda>t. map (\<lambda>b. S b t) [0..<F]) [0..<frames],
                map (\<lambda>t. map (\<lambda>b. S (F + b) t) [0..<F]) [0..<frames]]"
proof -
  have p: "pad_row (pad st) row = Inr xp"
    using pad by (simp add: pad_row_def xp_def)
  have lx: "length xp = length row + 2 * nat (pad st)" by (simp add: xp_def)
  have ks: "kernel_size (weight st) = k"
    using F by (simp add: w kernel_size_map)
  define out where "out = map (\<lambda>c. map (S c) [0..<frames]) [0..<2 * F]"
  have c: "conv1d (weight st) (nhop st) xp = Inr out"
    unfolding w out_def S_def frames_def lx [symmetric]
    using hop F k len lx by (intro conv1d_frames) simp_all
  have re: "py_slice out 0 (int F) = map (\<lambda>c. map (S c) [0..<frames]) [0..<F]"
    unfolding out_def by (rule py_slice_take)
  have im: "py_slice out (int F) (int (length out)) = map (\<lambda>b. map (S (F + b)) [0..<frames]) [0..<F]"
    unfolding out_def by (rule py_slice_drop)
  have fr: "(length xp - kernel_size (weight st)) div nat (nhop st) + 1 = frames"
    by (simp add: frames_def lx ks)
  have t1: "map (\<lambda>t. map (\<lambda>chan. chan ! t) (map (\<lambda>c. map (S c) [0..<frames]) [0..<F])) [0..<frames]
            = map (\<lambda>t. map (\<lambda>b. S b t) [0..<F]) [0..<frames]"
    by (simp add: comp_def)
  have t2: "map (\<lambda>t. map (\<lambda>chan. chan ! t) (map (\<lambda>b. map (S (F + b)) [0..<frames]) [0..<F])) [0..<frames]
            = map (\<lambda>t. map (\<lambda>b. S (F + b) t) [0..<F]) [0..<frames]"
    by (simp add: comp_def)
  show ?thesis
    by (simp only: transform_item_def p c bind_res_Inr Let_def dim re im fr t1 t2) simp
qed


lemma conv_transpose1d_frames:
  fixes h v :: "nat \<Rightarrow> nat \<Rightarrow> real"
  assumes "0 < stride" "0 < C" "0 < k" "0 < T"
  shows "conv_transpose1d (map (\<lambda>c. map (h c) [0..<k]) [0..<C]) stride
           (map (\<lambda>t. map (v t) [0..<C]) [0..<T])
         = Inr (map (\<lambda>q. \<Sum>t<T. if t * nat stride \<le> q \<and> q < t * nat stride + k
                                   then \<Sum>c<C. v t c * h c (q - t * nat stride) else 0)
                    [0..<(T - 1) * nat stride + k])"
proof -
  let ?W = "map (\<lambda>c. map (h c) [0..<k]) [0..<C]"
  let ?I = "map (\<lambda>t. map (v t) [0..<C]) [0..<T]"
  have inner: "(\<Sum>c<length ?W. ?I ! t ! c * ?W ! c ! (q - t * nat stride))
               = (\<Sum>c<C. v t c * h c (q - t * nat stride))"
    if "t < T" "t * nat stride \<le> q" "q < t * nat stride + k" for t q
  proof -
    have d: "q - t * nat stride < k" using that by linarith
    have "(\<Sum>c<C. ?I ! t ! c * ?W ! c ! (q - t * nat stride))
          = (\<Sum>c<C. v t c * h c (q - t * nat stride))"
      by (rule sum.cong) (simp_all add: that(1) d)
    then show ?thesis by simp
  qed
  have outer: "(\<Sum>t<length ?I. if t * nat stride \<le> q \<and> q < t * nat stride + k
                 then \<Sum>c<length ?W. ?I ! t ! c * ?W ! c ! (q - t * nat stride)
                 else 0)
               = (\<Sum>t<T. if t * nat stride \<le> q \<and> q < t * nat stride + k
                 then \<Sum>c<C. v t c * h c (q - t * nat stride) else 0)" for q
  proof -
    have "(\<Sum>t<T. if t * nat stride \<le> q \<and> q < t * nat stride + k
                 then \<Sum>c<length ?W. ?I ! t ! c * ?W ! c ! (q - t * nat stride)
                 else 0)
               = (\<Sum>t<T. if t * nat stride \<le> q \<and> q < t * nat stride + k
                 then \<Sum>c<C. v t c * h c (q - t * nat stride) else 0)"
    proof (rule sum.cong [OF refl])
      fix t assume "t \<in> {..<T}"
      then have tT: "t < T" by simp
      show "(if t * nat stride \<le> q \<and> q < t * nat stride + k
             then \<Sum>c<length ?W. ?I ! t ! c * ?W ! c ! (q - t * nat stride) else 0)
            = (if t * nat stride \<le> q \<and> q < t * nat stride + k
               then \<Sum>c<C. v t c * h c (q - t * nat stride) else 0)"
      proof (cases "t * nat stride \<le> q \<and> q < t * nat stride + k")
        case True
        then have "(\<Sum>c<length ?W. ?I ! t ! c * ?W ! c ! (q - t * nat stride))
                   = (\<Sum>c<C. v t c * h c (q - t * nat stride))"
          using inner [of t q] tT by blast
        with True show ?thesis by (simp only: if_True)
      next
        case False
        then show ?thesis by (simp only: if_False)
      qed
    qed
    then show ?thesis by simp
  qed
  have chk: "\<not> (\<exists>x \<in> set (map (\<lambda>t. map (v t) [0..<C]) [0..<T]).
                   length x \<noteq> length (map (\<lambda>c. map (h c) [0..<k]) [0..<C]))"
    by auto
  have ne: "map (\<lambda>t. map (v t) [0..<C]) [0..<T] \<noteq> []"
    using assms(4) by simp
  have len: "(length ?I - 1) * nat stride + k = (T - 1) * nat stride + k" by simp
  show ?thesis
    unfolding conv_transpose1d_def Let_def kernel_size_map [OF assms(2)] outer len
    using assms(1,3) chk ne by (simp del: set_map)
qed

lemma synth_frame:
  fixes K P :: "nat \<Rightarrow> nat \<Rightarrow> real" and w x :: "nat \<Rightarrow> real"
  assumes inv: "\<And>i. i < k \<Longrightarrow> (\<Sum>c<C. P j c * K c i) = (if i = j then 1 else 0)"
    and j: "j < k"
  shows "(\<Sum>c<C. (\<Sum>i<k. K c i * w i * x i) * (P j c * w j)) = (w j)\<^sup>2 * x j"
proof -
  have "(\<Sum>i<k. K c i * w i * x i) * (P j c * w j)
        = (\<Sum>i<k. (P j c * K c i) * (w i * x i * w j))" for c
    by (subst sum_distrib_right) (rule sum.cong, simp_all add: algebra_simps)
  then have "(\<Sum>c<C. (\<Sum>i<k. K c i * w i * x i) * (P j c * w j))
        = (\<Sum>c<C. \<Sum>i<k. (P j c * K c i) * (w i * x i * w j))"
    by simp
  also have "\<dots> = (\<Sum>i<k. \<Sum>c<C. (P j c * K c i) * (w i * x i * w j))"
    by (rule sum.swap)
  also have "\<dots> = (\<Sum>i<k. (\<Sum>c<C. P j c * K c i) * (w i * x i * w j))"
    by (simp add: sum_distrib_right)
  also have "\<dots> = (\<Sum>i<k. (if i = j then 1 else 0) * (w i * x i * w j))"
    by (rule sum.cong) (simp_all add: inv)
  also have "\<dots> = (\<Sum>i<k. if i = j then w j * x j * w j else 0)"
    by (rule sum.cong) simp_all
  also have "\<dots> = w j * x j * w j"
    using j by simp
  finally show ?thesis by (simp add: power2_eq_square)
qed

lemma eye_frame:
  fixes w :: "nat \<Rightarrow> real"
  assumes "j < k"
  shows "(\<Sum>c<k. (w c)\<^sup>2 * (if c = j then 1 else 0)) = (w j)\<^sup>2"
proof -
  have "(\<Sum>c<k. (w c)\<^sup>2 * (if c = j then 1 else 0)) = (\<Sum>c<k. if c = j then (w j)\<^sup>2 else 0)"
    by (rule sum.cong) simp_all
  then show ?thesis using assms by simp
qed

lemma sum_if_cong:
  fixes a b :: "nat \<Rightarrow> real"
  assumes "\<And>t. t < T \<Longrightarrow> c t \<Longrightarrow> a t = b t"
  shows "(\<Sum>t<T. if c t then a t else 0) = (\<Sum>t<T. if c t then b t else 0)"
  by (rule sum.cong) (auto simp: assms)

lemma round_trip_item:
  fixes K P :: "nat \<Rightarrow> nat \<Rightarrow> real" and wn :: "nat \<Rightarrow> real"
  assumes hop: "0 < nhop st" and F: "0 < F" and k: "0 < k"
    and w: "weight st = map (\<lambda>c. map (\<lambda>j. K c j * wn j) [0..<k]) [0..<2 * F]"
    and iw: "inv_weight st = map (\<lambda>c. map (\<lambda>j. P j c * wn j) [0..<k]) [0..<2 * F]"
    and win: "window st = map wn [0..<k]"
    and enf: "enframe st = eye k"
    and inv: "\<And>i j. i < k \<Longrightarrow> j < k \<Longrightarrow> (\<Sum>c<2 * F. P j c * K c i) = (if i = j then 1 else 0)"
    and dim: "nfft st div 2 + 1 = int F"
    and pad: "0 \<le> pad st"
    and len: "k \<le> length row + 2 * nat (pad st)"
  defines "xp \<equiv> replicate (nat (pad st)) 0 @ row @ replicate (nat (pad st)) 0"
  defines "s \<equiv> nat (nhop st)"
  defines "frames \<equiv> (length row + 2 * nat (pad st) - k) div nat (nhop st) + 1"
  shows "bind_res (transform_item st row) (inverse_item st)
         = Inr (trim st (map (\<lambda>q. xp ! q * window_power (window st) s frames q
                                  / (window_power (window st) s frames q + 1 / 10 ^ 8))
                             [0..<(frames - 1) * s + k]))"
proof -
  define S where "S c t = (\<Sum>j<k. (K c j * wn j) * xp ! (t * nat (nhop st) + j))" for c t
  define L where "L = (frames - 1) * s + k"
  define R where "R = map (\<lambda>t. map (\<lambda>b. S b t) [0..<F]) [0..<frames]"
  define I where "I = map (\<lambda>t. map (\<lambda>b. S (F + b) t) [0..<F]) [0..<frames]"
  have fpos: "0 < frames" by (simp add: frames_def)
  have ti: "transform_item st row = Inr [R, I]"
    unfolding R_def I_def S_def xp_def frames_def
    using hop F k w dim pad len by (rule transform_item_frames)
  have inputs: "map2 (@) R I = map (\<lambda>t. map (\<lambda>c. S c t) [0..<2 * F]) [0..<frames]"
  proof -
    have "map2 (@) R I = map (\<lambda>t. map (\<lambda>b. S b t) [0..<F] @ map (\<lambda>b. S (F + b) t) [0..<F]) [0..<frames]"
      by (simp add: R_def I_def list_eq_iff_nth_eq)
    moreover have "map (\<lambda>b. S b t) [0..<F] @ map (\<lambda>b. S (F + b) t) [0..<F]
                   = map (\<lambda>c. S c t) [0..<2 * F]" for t
      using map_upt_double [of "\<lambda>c. S c t" F] by simp
    ultimately show ?thesis by simp
  qed
  have wp: "window_power (window st) s frames q
            = (\<Sum>t<frames. if t * s \<le> q \<and> q < t * s + k then (wn (q - t * s))\<^sup>2 else 0)" for q
    unfolding window_power_def
  proof (rule sum.cong [OF refl])
    fix t
    show "(if t * s \<le> q \<and> q < t * s + length (window st) then (window st ! (q - t * s))\<^sup>2 else 0)
          = (if t * s \<le> q \<and> q < t * s + k then (wn (q - t * s))\<^sup>2 else 0)"
    proof (cases "t * s \<le> q \<and> q < t * s + k")
      case True
      then have "q - t * s < k" by linarith
      then show ?thesis using True by (simp add: win)
    next
      case False
      then show ?thesis by (auto simp: win)
    qed
  qed
  have frame: "(\<Sum>c<2 * F. S c t * (P (q - t * s) c * wn (q - t * s))) = (wn (q - t * s))\<^sup>2 * xp ! q"
    if "t * s \<le> q" "q < t * s + k" for t q
  proof -
    have j: "q - t * s < k" using that by linarith
    have "(\<Sum>c<2 * F. (\<Sum>i<k. K c i * wn i * xp ! (t * s + i)) * (P (q - t * s) c * wn (q - t * s)))
          = (wn (q - t * s))\<^sup>2 * xp ! (t * s + (q - t * s))"
      using inv j by (intro synth_frame) simp_all
    then show ?thesis using that(1) by (simp add: S_def s_def)
  qed
  have out: "conv_transpose1d (inv_weight st) (nhop st) (map2 (@) R I)
             = Inr (map (\<lambda>q. xp ! q * window_power (window st) s frames q) [0..<L])"
  proof -
    have "conv_transpose1d (inv_weight st) (nhop st) (map2 (@) R I)
          = Inr (map (\<lambda>q. \<Sum>t<frames. if t * s \<le> q \<and> q < t * s + k
                                   then \<Sum>c<2 * F. S c t * (P (q - t * s) c * wn (q - t * s))
                                   else 0)
                    [0..<(frames - 1) * s + k])"
      unfolding iw inputs s_def using hop F k fpos by (intro conv_transpose1d_frames) simp_all
    moreover have "(\<Sum>t<frames. if t * s \<le> q \<and> q < t * s + k
                       then \<Sum>c<2 * F. S c t * (P (q - t * s) c * wn (q - t * s)) else 0)
                   = xp ! q * window_power (window st) s frames q" for q
    proof -
      have "(\<Sum>t<frames. if t * s \<le> q \<and> q < t * s + k
                       then \<Sum>c<2 * F. S c t * (P (q - t * s) c * wn (q - t * s)) else 0)
            = (\<Sum>t<frames. if t * s \<le> q \<and> q < t * s + k then (wn (q - t * s))\<^sup>2 * xp ! q else 0)"
        by (rule sum_if_cong) (simp add: frame)
      also have "\<dots> = (\<Sum>t<frames. xp ! q * (if t * s \<le> q \<and> q < t * s + k then (wn (q - t * s))\<^sup>2 else 0))"
        by (rule sum.cong) simp_all
      also have "\<dots> = xp ! q * window_power (window st) s frames q"
        by (simp only: wp sum_distrib_left)
      finally show ?thesis .
    qed
    ultimately show ?thesis by (simp add: L_def)
  qed
  have coff: "conv_transpose1d (enframe st) (nhop st) (replicate (length R) (map (\<lambda>v. v\<^sup>2) (window st)))
              = Inr (map (window_power (window st) s frames) [0..<L])"
  proof -
    have rep: "replicate (length R) (map (\<lambda>v. v\<^sup>2) (window st))
               = map (\<lambda>t. map (\<lambda>c. (wn c)\<^sup>2) [0..<k]) [0..<frames]"
      by (simp add: R_def win comp_def map_replicate_const)
    have "conv_transpose1d (enframe st) (nhop st) (replicate (length R) (map (\<lambda>v. v\<^sup>2) (window st)))
          = Inr (map (\<lambda>q. \<Sum>t<frames. if t * s \<le> q \<and> q < t * s + k
                                   then \<Sum>c<k. (wn c)\<^sup>2 * (if c = q - t * s then 1 else 0)
                                   else 0)
                    [0..<(frames - 1) * s + k])"
      unfolding enf eye_def rep s_def using hop k fpos by (intro conv_transpose1d_frames) simp_all
    moreover have "(\<Sum>t<frames. if t * s \<le> q \<and> q < t * s + k
                       then \<Sum>c<k. (wn c)\<^sup>2 * (if c = q - t * s then 1 else 0) else 0)
                   = window_power (window st) s frames q" for q
      unfolding wp
    proof (rule sum_if_cong)
      fix t assume "t * s \<le> q \<and> q < t * s + k"
      then have "q - t * s < k" by linarith
      then show "(\<Sum>c<k. (wn c)\<^sup>2 * (if c = q - t * s then 1 else 0)) = (wn (q - t * s))\<^sup>2"
        by (rule eye_frame)
    qed
    ultimately show ?thesis by (simp add: L_def)
  qed
  have dv: "div_row (map (\<lambda>q. xp ! q * window_power (window st) s frames q) [0..<L])
              (map (\<lambda>v. v + 1 / 10 ^ 8) (map (window_power (window st) s frames) [0..<L]))
            = Inr (map (\<lambda>q. xp ! q * window_power (window st) s frames q
                                  / (window_power (window st) s frames q + 1 / 10 ^ 8)) [0..<L])"
    unfolding div_row_def
  proof (rule bzip_rows)
    fix i assume "i < L"
    have "0 < window_power (window st) s frames i + 1 / 10 ^ 8"
      using window_power_nonneg [of "window st" s frames i] by simp
    then show "(if map (\<lambda>v. v + 1 / 10 ^ 8) (map (window_power (window st) s frames) [0..<L]) ! i = 0
                then Inl NonFinite
                else Inr (map (\<lambda>q. xp ! q * window_power (window st) s frames q) [0..<L] ! i
                          / map (\<lambda>v. v + 1 / 10 ^ 8) (map (window_power (window st) s frames) [0..<L]) ! i))
               = Inr (xp ! i * window_power (window st) s frames i
                      / (window_power (window st) s frames i + 1 / 10 ^ 8))"
      using \<open>i < L\<close> by simp
  qed simp_all
  have lRI: "length R = length I" by (simp add: R_def I_def)
  show ?thesis
    unfolding ti bind_res_Inr inverse_item_def
    by (simp add: lRI [symmetric] out coff dv [unfolded L_def, simplified] trim_def L_def Let_def
             del: replicate.simps)
qed

subsection \<open>The buffers of a constructed engine\<close>

lemma traverse_np_mul_row:
  assumes "length w = k"
  shows "traverse (\<lambda>row. np_mul_row row w) (map (\<lambda>c. map (g c) [0..<k]) [0..<C])
         = Inr (map (\<lambda>c. map (\<lambda>j. g c j * w ! j) [0..<k]) [0..<C])"
proof -
  have "traverse (\<lambda>row. np_mul_row row w) (map (\<lambda>c. map (g c) [0..<k]) [0..<C])
        = Inr (map (\<lambda>row. map2 (*) row w) (map (\<lambda>c. map (g c) [0..<k]) [0..<C]))"
    by (rule traverse_Inr) (auto simp: np_mul_row_def assms)
  moreover have "map2 (*) (map (g c) [0..<k]) w = map (\<lambda>j. g c j * w ! j) [0..<k]" for c
    using assms by (auto simp: list_eq_iff_nth_eq)
  ultimately show ?thesis by (simp add: comp_def)
qed

lemma np_T_rect:
  assumes "P \<noteq> []" and "\<forall>row \<in> set P. length row = C"
  shows "np_T C P = map (\<lambda>c. map (\<lambda>j. P ! j ! c) [0..<length P]) [0..<C]"
proof -
  have "transpose P = map (\<lambda>i. map (\<lambda>j. P ! j ! i) [0..<length P]) [0..<C]"
    using assms by (intro transpose_rectangle) simp_all
  then show ?thesis using assms(1) by (simp add: np_T_def)
qed

lemma fourier_kernel_rows:
  assumes "0 < n" "n \<le> N"
  shows "\<exists>kf. fourier_kernel N n
           = Inr (map (\<lambda>c. map (kf c) [0..<nat n]) [0..<2 * (nat N div 2 + 1)])"
proof -
  define kf where "kf c m = (if c < nat N div 2 + 1
                                then cos (2 * pi * real m * real c / real_of_int N)
                                else - sin (2 * pi * real m * real (c - (nat N div 2 + 1)) / real_of_int N))"
    for c m
  have sl: "py_slice [0..<nat N] 0 n = [0..<nat n]"
    using assms by (simp add: py_slice_def Let_def min_def)
  have nz: "\<not> N \<le> 0" using assms by simp
  have "fourier_kernel N n
      = Inr (map (\<lambda>c. map (kf c) [0..<nat n]) [0..<2 * (nat N div 2 + 1)])"
    unfolding kf_def by (simp only: fourier_kernel_def Let_def if_False sl nz)
  then show ?thesis by (rule exI [of _ kf])
qed


lemma init_kernels_forward:
  assumes "init_conv_stft_kernels lib n N win False = Inr (kern, wd)"
  obtains K0 where "fourier_kernel N n = Inr K0"
    and "traverse (\<lambda>row. np_mul_row row wd) K0 = Inr kern"
  using assms
  by (auto simp: init_conv_stft_kernels_def bind_res_def split: sum.splits)

lemma init_kernels_inverse:
  assumes "init_conv_stft_kernels lib n N win True = Inr (ikern, wd)"
  obtains K0 P0 where "fourier_kernel N n = Inr K0" and "pinv lib K0 = Inr P0"
    and "traverse (\<lambda>row. np_mul_row row wd) (np_T (length K0) P0) = Inr ikern"
  using assms
  by (auto simp: init_conv_stft_kernels_def bind_res_def split: sum.splits)

lemma init_kernels_window:
  assumes "init_conv_stft_kernels lib n N win False = Inr (kern, wd)"
    and "init_conv_stft_kernels lib n N win True = Inr (ikern, wd')"
  shows "wd' = wd"
  using assms
  by (auto simp: init_conv_stft_kernels_def bind_res_def split: sum.splits)

lemma engine_structure:
  assumes init: "STFT_init lib n h nfft' win c = Inr st"
    and pinv: "\<forall>K P. fourier_kernel (nfft st) n = Inr K \<longrightarrow> pinv lib K = Inr P \<longrightarrow> left_inverse P K"
    and n: "0 < n" "n \<le> nfft st" and wl: "int (length (window st)) = n"
  obtains K P :: "nat \<Rightarrow> nat \<Rightarrow> real" and F :: nat where
    "0 < F"
    "weight st = map (\<lambda>c. map (\<lambda>j. K c j * window st ! j) [0..<nat n]) [0..<2 * F]"
    "inv_weight st = map (\<lambda>c. map (\<lambda>j. P j c * window st ! j) [0..<nat n]) [0..<2 * F]"
    "\<And>i j. i < nat n \<Longrightarrow> j < nat n \<Longrightarrow> (\<Sum>c<2 * F. P j c * K c i) = (if i = j then 1 else 0)"
    "nfft st div 2 + 1 = int F" "enframe st = eye (nat n)" "0 \<le> pad st" "nhop st = h"
proof -
  obtain N kern wd ikern unused where
    k1: "init_conv_stft_kernels lib n N win False = Inr (kern, wd)"
    and k2: "init_conv_stft_kernels lib n N win True = Inr (ikern, unused)"
    and st: "st = \<lparr>nframe = n, nhop = h, pad = (if c then n div 2 else 0), nfft = N,
            weight = kern, inv_weight = ikern, window = wd, enframe = eye (nat n)\<rparr>"
    using init by (rule STFT_init_Inr)
  have N: "nfft st = N" and w: "window st = wd" by (simp_all add: st)
  have u: "unused = wd" using k1 k2 by (rule init_kernels_window)
  define k where "k = nat n"
  define F where "F = nat N div 2 + 1"
  have kpos: "0 < k" using n(1) by (simp add: k_def)
  have lw: "length wd = k" using wl by (simp add: w k_def)
  obtain K0 where K0: "fourier_kernel N n = Inr K0"
    and t1: "traverse (\<lambda>row. np_mul_row row wd) K0 = Inr kern"
    using k1 by (rule init_kernels_forward)
  obtain K0' P0 where K0': "fourier_kernel N n = Inr K0'" and P0: "pinv lib K0' = Inr P0"
    and t2: "traverse (\<lambda>row. np_mul_row row wd) (np_T (length K0') P0) = Inr ikern"
    using k2 [unfolded u] by (rule init_kernels_inverse)
  have same: "K0' = K0" using K0 K0' by simp
  obtain kf where kf: "fourier_kernel N n = Inr (map (\<lambda>c. map (kf c) [0..<nat n]) [0..<2 * (nat N div 2 + 1)])"
    using fourier_kernel_rows [of n N] n N by auto
  have K0eq: "K0 = map (\<lambda>c. map (kf c) [0..<k]) [0..<2 * F]"
    using K0 kf by (simp add: k_def F_def)
  have li: "left_inverse P0 K0"
    using pinv K0 P0 by (simp add: N same)
  have Fpos: "0 < F" by (simp add: F_def)
  have hdK: "hd K0 = map (kf 0) [0..<k]"
    using Fpos by (simp add: K0eq hd_map hd_upt)
  have lP: "length P0 = k" using li by (simp add: left_inverse_def hdK)
  have rP: "\<forall>row \<in> set P0. length row = 2 * F"
    using li by (simp add: left_inverse_def K0eq)
  have neP: "P0 \<noteq> []" using lP kpos by auto
  have kern: "kern = map (\<lambda>c. map (\<lambda>j. kf c j * wd ! j) [0..<k]) [0..<2 * F]"
    using t1 traverse_np_mul_row [OF lw, of kf "2 * F"] by (simp add: K0eq)
  have "np_T (length K0') P0 = map (\<lambda>c. map (\<lambda>j. P0 ! j ! c) [0..<k]) [0..<2 * F]"
    using np_T_rect [OF neP rP] by (simp add: same K0eq lP)
  then have ikern: "ikern = map (\<lambda>c. map (\<lambda>j. P0 ! j ! c * wd ! j) [0..<k]) [0..<2 * F]"
    using t2 traverse_np_mul_row [OF lw, of "\<lambda>c j. P0 ! j ! c" "2 * F"] by simp
  have sums: "(\<Sum>c<2 * F. P0 ! j ! c * kf c i) = (if i = j then 1 else 0)" if "i < k" "j < k" for i j
  proof -
    have all: "\<forall>j < length P0. \<forall>i < length P0.
                 (\<Sum>c<length K0. P0 ! j ! c * K0 ! c ! i) = (if i = j then 1 else 0)"
      using li unfolding left_inverse_def by blast
    have lK: "length K0 = 2 * F" by (simp add: K0eq)
    have e1: "(\<Sum>c<2 * F. P0 ! j ! c * K0 ! c ! i) = (if i = j then 1 else 0)"
      using all that unfolding lP lK by blast
    have e2: "(\<Sum>c<2 * F. P0 ! j ! c * K0 ! c ! i) = (\<Sum>c<2 * F. P0 ! j ! c * kf c i)"
    proof (rule sum.cong [OF refl])
      fix c assume "c \<in> {..<2 * F}"
      then have "K0 ! c ! i = kf c i" using that(1) by (simp add: K0eq)
      then show "P0 ! j ! c * K0 ! c ! i = P0 ! j ! c * kf c i" by simp
    qed
    show ?thesis using e1 e2 by simp
  qed
  have Npos: "0 < N" using n N by simp
  have dim: "nfft st div 2 + 1 = int F"
    using Npos by (simp add: N F_def nat_div_distrib)
  show ?thesis
  proof (rule that [of F kf "\<lambda>j c. P0 ! j ! c"])
    show "0 < F" by (rule Fpos)
    show "weight st = map (\<lambda>c. map (\<lambda>j. kf c j * window st ! j) [0..<nat n]) [0..<2 * F]"
      by (simp add: st kern k_def)
    show "inv_weight st = map (\<lambda>c. map (\<lambda>j. P0 ! j ! c * window st ! j) [0..<nat n]) [0..<2 * F]"
      by (simp add: st ikern k_def)
    show "\<And>i j. i < nat n \<Longrightarrow> j < nat n \<Longrightarrow> (\<Sum>c<2 * F. P0 ! j ! c * kf c i) = (if i = j then 1 else 0)"
      using sums unfolding k_def by blast
    show "nfft st div 2 + 1 = int F" by (rule dim)
    show "enframe st = eye (nat n)" by (simp add: st)
    show "0 \<le> pad st" using n(1) by (simp add: st)
    show "nhop st = h" by (simp add: st)
  qed
qed

subsection \<open>The round trip of a constructed engine\<close>

lemma trim_nth:
  assumes "0 \<le> pad st"
  shows "length (trim st l) = length l - 2 * nat (pad st)"
    and "i < length l - 2 * nat (pad st) \<Longrightarrow> trim st l ! i = l ! (i + nat (pad st))"
proof -
  define p where "p = nat (pad st)"
  have pp: "pad st = int p" using assms by (simp add: p_def)
  show "length (trim st l) = length l - 2 * nat (pad st)"
    by (auto simp: trim_def py_slice_def Let_def pp min_def max_def)
  show "trim st l ! i = l ! (i + nat (pad st))" if "i < length l - 2 * nat (pad st)"
  proof (cases "p = 0")
    case True
    then show ?thesis by (simp add: trim_def pp)
  next
    case False
    have i: "i < length l - 2 * p" using that by (simp add: p_def)
    have b: "nat (int (length l) - int p) = length l - p" by simp
    have "trim st l = drop p (take (length l - p) l)"
      using False i by (simp add: trim_def py_slice_def Let_def pp min_def max_def b)
    moreover have "drop p (take (length l - p) l) ! i = l ! (p + i)"
      using i by simp
    ultimately show ?thesis by (simp add: p_def add.commute)
  qed
qed

lemma forward_single:
  "forward_stft st [x]
   = bind_res (bind_res (transform_item st x) (inverse_item st)) (\<lambda>out. Inr [out])"
  by (cases "transform_item st x")
     (simp_all add: forward_stft_def transform_def inverse_stft_def)

text \<open>
  C1, amended (exact arithmetic): take an engine constructed with a window of the frame
  length \<open>n\<close>, \<open>n\<close> at most the transform size, a positive hop \<open>h\<close> and a
  pseudo-inverse that is a left inverse of the Fourier kernel, and an input \<open>x\<close> of \<open>T\<close>
  samples with \<open>n \<le> T + 2 pad\<close>. The round trip returns
  \<open>((T + 2 pad - n) div h) h + n - 2 pad\<close> samples, at most \<open>T\<close>, and sample \<open>i\<close> is
  \<open>x\<^sub>i c\<^sub>i / (c\<^sub>i + 10\<^sup>-\<^sup>8)\<close>, where \<open>c\<^sub>i\<close> is the overlap-added squared window at
  \<open>i + pad\<close>: the input is reproduced up to that factor where the windows overlap to a
  positive \<open>c\<^sub>i\<close>, it is 0 where \<open>c\<^sub>i = 0\<close>, and the samples beyond the last full hop are
  dropped.
\<close>

theorem round_trip:
  assumes init: "STFT_init lib n h nfft' win c = Inr st"
    and pinv: "\<forall>K P. fourier_kernel (nfft st) n = Inr K \<longrightarrow> pinv lib K = Inr P \<longrightarrow> left_inverse P K"
    and n: "0 < n" "n \<le> nfft st" and wl: "int (length (window st)) = n"
    and h: "0 < h" and len: "n \<le> int (length x) + 2 * pad st"
  shows "\<exists>out. forward_stft st [x] = Inr [out]
           \<and> length out = (length x + 2 * nat (pad st) - nat n) div nat h * nat h + nat n
                           - 2 * nat (pad st)
           \<and> length out \<le> length x
           \<and> (\<forall>i < length out.
                 out ! i = x ! i
                   * window_power (window st) (nat h)
                       ((length x + 2 * nat (pad st) - nat n) div nat h + 1) (i + nat (pad st))
                   / (window_power (window st) (nat h)
                       ((length x + 2 * nat (pad st) - nat n) div nat h + 1) (i + nat (pad st))
                      + 1 / 10 ^ 8))"
proof -
  obtain K P :: "nat \<Rightarrow> nat \<Rightarrow> real" and F :: nat where
    F: "0 < F"
    and w: "weight st = map (\<lambda>c. map (\<lambda>j. K c j * window st ! j) [0..<nat n]) [0..<2 * F]"
    and iw: "inv_weight st = map (\<lambda>c. map (\<lambda>j. P j c * window st ! j) [0..<nat n]) [0..<2 * F]"
    and inv: "\<And>i j. i < nat n \<Longrightarrow> j < nat n \<Longrightarrow> (\<Sum>c<2 * F. P j c * K c i) = (if i = j then 1 else 0)"
    and dim: "nfft st div 2 + 1 = int F" and enf: "enframe st = eye (nat n)"
    and pad: "0 \<le> pad st" and hop: "nhop st = h"
    by (rule engine_structure [OF init pinv n wl]) blast
  define p where "p = nat (pad st)"
  define k where "k = nat n"
  define s where "s = nat h"
  define frames where "frames = (length x + 2 * p - k) div s + 1"
  define xp where "xp = replicate p (0 :: real) @ x @ replicate p 0"
  define cf where "cf q = window_power (window st) s frames q" for q
  define l where "l = map (\<lambda>q. xp ! q * cf q / (cf q + 1 / 10 ^ 8)) [0..<(frames - 1) * s + k]"
  have kpos: "0 < k" using n(1) by (simp add: k_def)
  have spos: "0 < s" using h by (simp add: s_def)
  have lwk: "length (window st) = k" using wl by (simp add: k_def)
  have win: "window st = map (\<lambda>j. window st ! j) [0..<k]"
    using map_nth [of "window st"] lwk by simp
  have lenk: "k \<le> length x + 2 * p"
    using len pad by (simp add: k_def p_def)
  have hop': "0 < nhop st" using h hop by simp
  have w': "weight st = map (\<lambda>c. map (\<lambda>j. K c j * window st ! j) [0..<k]) [0..<2 * F]"
    by (simp add: w k_def)
  have iw': "inv_weight st = map (\<lambda>c. map (\<lambda>j. P j c * window st ! j) [0..<k]) [0..<2 * F]"
    by (simp add: iw k_def)
  have enf': "enframe st = eye k" by (simp add: enf k_def)
  have inv': "(\<Sum>c<2 * F. P j c * K c i) = (if i = j then 1 else 0)" if "i < k" "j < k" for i j
    using inv that unfolding k_def by blast
  have lenk': "k \<le> length x + 2 * nat (pad st)" using lenk by (simp add: p_def)
  have rt: "bind_res (transform_item st x) (inverse_item st) = Inr (trim st l)"
    unfolding l_def cf_def xp_def frames_def s_def p_def hop [symmetric]
    by (rule round_trip_item [OF hop' F kpos w' iw' win enf' inv' dim pad lenk'])
  have fw: "forward_stft st [x] = Inr [trim st l]"
    by (simp add: forward_single rt)
  have ll: "length l = (frames - 1) * s + k" by (simp add: l_def)
  have fr1: "frames - 1 = (length x + 2 * p - k) div s" by (simp add: frames_def)
  have bound: "(frames - 1) * s + k \<le> length x + 2 * p"
  proof -
    have "(length x + 2 * p - k) div s * s \<le> length x + 2 * p - k" by simp
    then have "(frames - 1) * s \<le> length x + 2 * p - k" by (simp only: fr1)
    then show ?thesis using lenk by linarith
  qed
  have lt: "length (trim st l) = (frames - 1) * s + k - 2 * p"
    using trim_nth(1) [OF pad, of l] by (simp add: ll p_def)
  have le: "length (trim st l) \<le> length x" using bound by (simp add: lt)
  have val: "trim st l ! i = x ! i * cf (i + p) / (cf (i + p) + 1 / 10 ^ 8)"
    if "i < length (trim st l)" for i
  proof -
    have i: "i < (frames - 1) * s + k - 2 * p" using that by (simp add: lt)
    then have "trim st l ! i = l ! (i + p)"
      using trim_nth(2) [OF pad, of i l] by (simp add: ll p_def)
    also have "\<dots> = xp ! (i + p) * cf (i + p) / (cf (i + p) + 1 / 10 ^ 8)"
    proof -
      have "i + p < (frames - 1) * s + k" using i by linarith
      then show ?thesis by (simp add: l_def)
    qed
    also have "xp ! (i + p) = x ! i"
      using that le by (simp add: xp_def nth_append)
    finally show ?thesis .
  qed
  show ?thesis
    using fw lt le val
    unfolding cf_def frames_def fr1 [symmetric] s_def p_def k_def
    by (intro exI [of _ "trim st l"]) (simp add: fr1 frames_def s_def p_def k_def)
qed

subsection \<open>The round trip for frames of two samples\<close>

lemma transpose_42: "transpose [[a, b], [c, d], [e, f], [g, h]] = [[a, c, e, g], [b, d, f, h]]"
  by (simp add: transpose.simps)

lemma transpose_24: "transpose [[a, c, e, g], [b, d, f, h]] = [[a, b], [c, d], [e, f], [g, h]]"
  by (simp add: transpose.simps)

lemma transpose_22: "transpose [[a, b], [c, d]] = [[a, c], [b, d]]"
  by (simp add: transpose.simps)

lemma transpose_44:
  "transpose [[a1, a2, a3, a4], [b1, b2, b3, b4], [c1, c2, c3, c4], [d1, d2, d3, d4]]
   = [[a1, b1, c1, d1], [a2, b2, c2, d2], [a3, b3, c3, d3], [a4, b4, c4, d4]]"
  by (simp add: transpose.simps)

lemma pinv_frame2:
  "pinv numlib_frame2 [[1, 1], [1, - 1], [0, 0], [0, 0]]
   = Inr [[1 / 2, 1 / 2, 0, 0], [1 / 2, - 1 / 2, 0, 0]]"
  by (simp add: numlib_frame2_def transpose_42)

text \<open>
  Half the transpose satisfies the four Penrose equations for the Fourier kernel of size 2:
  it is the pseudo-inverse that numpy computes there.
\<close>

lemma pinv_frame2_penrose:
  fixes K P :: "real list list"
  assumes "K = [[1, 1], [1, - 1], [0, 0], [0, 0]]"
    and "P = [[1 / 2, 1 / 2, 0, 0], [1 / 2, - 1 / 2, 0, 0]]"
  shows "mat_mul (mat_mul K P) K = K" and "mat_mul (mat_mul P K) P = P"
    and "transpose (mat_mul K P) = mat_mul K P" and "transpose (mat_mul P K) = mat_mul P K"
  by (simp_all add: assms mat_mul_def dot_def transpose_42 transpose_24 transpose_22 transpose_44)

lemma left_inverse_frame2:
  "left_inverse [[1 / 2, 1 / 2, 0, 0], [1 / 2, - 1 / 2, 0, 0]] [[1, 1], [1, - 1], [0, 0], [0, 0]]"
  by (simp add: left_inverse_def lessThan_Suc eval_nat_numeral All_less_Suc)

lemma pinv_frame2_left_inverse:
  "\<forall>K P. fourier_kernel 2 2 = Inr K \<longrightarrow> pinv numlib_frame2 K = Inr P \<longrightarrow> left_inverse P K"
  using left_inverse_frame2 by (auto simp: fourier_kernel_2 pinv_frame2)

lemma window_power_frame2:
  "window_power [0, 1] 1 3 1 = 1" "window_power [0, 1] 1 3 2 = 1"
  by (simp_all add: window_power_def lessThan_Suc numeral_3_eq_3)

lemma sqrt_hann_2: "map sqrt (hann 2) = [0, 1]"
  by (simp add: hann_2)

lemma init_frame2_array:
  "STFT_init numlib_frame2 2 h None (WinArray [0, 1]) True = Inr (engine_frame2 h)"
  by (simp add: STFT_init_def default_nfft_2 init_conv_stft_kernels_def numlib_frame2_def
        fourier_kernel_2 np_mul_row_def np_T_def transpose_42 transpose_24 engine_frame2_def
        eye_def upt_2)

text \<open>
  Frames of two samples at the hop 1: every hypothesis holds, and the round trip of
  \<open>(3, 5)\<close> is \<open>(3, 5) / (1 + 10\<^sup>-\<^sup>8)\<close>.
\<close>

theorem round_trip_witness:
  "forward_stft (engine_frame2 1) [[3, 5]] = Inr [[300000000 / 100000001, 500000000 / 100000001]]"
proof -
  have st: "STFT_init numlib_frame2 2 1 None (WinName ''hann'') True = Inr (engine_frame2 1)"
    by (rule init_frame2)
  have pv: "\<forall>K P. fourier_kernel (nfft (engine_frame2 1)) 2 = Inr K \<longrightarrow>
                 pinv numlib_frame2 K = Inr P \<longrightarrow> left_inverse P K"
    using pinv_frame2_left_inverse by (simp add: engine_frame2_def)
  have f: "nfft (engine_frame2 1) = 2" "window (engine_frame2 1) = [0, 1]" "pad (engine_frame2 1) = 1"
    by (simp_all add: engine_frame2_def)
  have "\<exists>out. forward_stft (engine_frame2 1) [[3, 5]] = Inr [out]
           \<and> length out = (length [3, 5 :: real] + 2 * nat (pad (engine_frame2 1)) - nat 2) div nat 1 * nat 1
                           + nat 2 - 2 * nat (pad (engine_frame2 1))
           \<and> length out \<le> length [3, 5 :: real]
           \<and> (\<forall>i < length out.
                 out ! i = [3, 5] ! i
                   * window_power (window (engine_frame2 1)) (nat 1)
                       ((length [3, 5 :: real] + 2 * nat (pad (engine_frame2 1)) - nat 2) div nat 1 + 1)
                       (i + nat (pad (engine_frame2 1)))
                   / (window_power (window (engine_frame2 1)) (nat 1)
                       ((length [3, 5 :: real] + 2 * nat (pad (engine_frame2 1)) - nat 2) div nat 1 + 1)
                       (i + nat (pad (engine_frame2 1)))
                      + 1 / 10 ^ 8))"
    by (rule round_trip [OF st pv]) (simp_all add: f)
  then obtain out where o: "forward_stft (engine_frame2 1) [[3, 5]] = Inr [out]"
    and l: "length out = 2"
    and v: "\<forall>i < length out. out ! i = [3, 5] ! i
               * window_power [0, 1] 1 3 (i + 1) / (window_power [0, 1] 1 3 (i + 1) + 1 / 10 ^ 8)"
    unfolding f by (auto simp: numeral_3_eq_3)
  have "out ! 0 = [3, 5] ! 0 * window_power [0, 1] 1 3 (0 + 1) / (window_power [0, 1] 1 3 (0 + 1) + 1 / 10 ^ 8)"
    and "out ! 1 = [3, 5] ! 1 * window_power [0, 1] 1 3 (1 + 1) / (window_power [0, 1] 1 3 (1 + 1) + 1 / 10 ^ 8)"
    using v l by simp_all
  moreover have "window_power [0, 1] (Suc 0) 3 (Suc 0) = 1"
    and "window_power [0, 1] (Suc 0) 3 (Suc (Suc 0)) = 1"
    using window_power_frame2 by (simp_all add: numeral_2_eq_2)
  ultimately have e: "out ! 0 = 300000000 / 100000001" "out ! 1 = 500000000 / 100000001"
    by simp_all
  have "out = [out ! 0, out ! 1]"
    using l by (cases out; cases "tl out") auto
  then have "out = [300000000 / 100000001, 500000000 / 100000001]"
    by (simp only: e)
  then show ?thesis by (simp only: o)
qed

lemma div_3_2: "Suc (Suc (Suc 0)) div Suc (Suc 0) = Suc 0"
proof -
  have "(3 :: nat) div 2 = 1" by simp
  then show ?thesis by (simp only: numeral_3_eq_3 numeral_2_eq_2 One_nat_def)
qed

text \<open>
  C1, as stated, fails. The square root of the Hann window of length 2 is \<open>(0, 1)\<close>. The
  engine with that window, frames of two samples and the hop 2 turns the signal
  \<open>(1, 1, 1)\<close>, longer than a frame, into two samples, the second of which is 0.
\<close>

theorem round_trip_counterexample:
  "STFT_init numlib_frame2 2 2 None (WinArray (map sqrt (hann 2))) True = Inr (engine_frame2 2)
   \<and> forward_stft (engine_frame2 2) [[1, 1, 1]] = Inr [[100000000 / 100000001, 0]]"
proof -
  have a: "STFT_init numlib_frame2 2 2 None (WinArray (map sqrt (hann 2))) True = Inr (engine_frame2 2)"
    by (simp only: sqrt_hann_2 init_frame2_array)
  have t: "transform (engine_frame2 2) [[1, 1, 1]]
           = Inr [[[[1, - 1], [1, - 1]], [[0, 0], [0, 0]]]]"
    by (simp add: transform_def transform_item_def engine_frame2_def pad_row_def conv1d_def
          kernel_size_def py_slice_def Let_def upt_2 lessThan_Suc numeral_2_eq_2 div_3_2)
  have i: "inverse_stft (engine_frame2 2) [[[[1, - 1], [1, - 1]], [[0, 0], [0, 0]]]]
           = Inr [[100000000 / 100000001, 0]]"
    by (simp add: inverse_stft_def inverse_item_def engine_frame2_def conv_transpose1d_def
          kernel_size_def div_row_def bzip_def py_slice_def Let_def upt_rec lessThan_Suc
          eval_nat_numeral)
  show ?thesis using a by (simp add: forward_stft_def t i)
qed

end
